theory Spec2Isabelle
  imports Main "HOL-Library.Sublist" "HOL-Library.Word"
begin

section \<open>Python strings and bytes\<close>

text \<open>
  A Python \<open>str\<close> is modelled as a \<open>string\<close>: a list of characters, each a code point
  below 256. The string methods the program calls (\<open>lower\<close>, \<open>strip\<close>, \<open>splitlines\<close>,
  \<open>split('/')\<close>, \<open>in\<close>) are written out below with the behaviour Python gives them on
  that range. A \<open>bytes\<close> value is a list of 8-bit words.
\<close>

type_synonym byte = "8 word"

definition lower_char :: "char \<Rightarrow> char" where
  "lower_char c =
     (let n = (of_char c :: nat)
      in if (65 \<le> n \<and> n \<le> 90) \<or> (192 \<le> n \<and> n \<le> 222 \<and> n \<noteq> 215)
         then char_of (n + 32) else c)"

definition lower :: "string \<Rightarrow> string" where
  "lower s = map lower_char s"

text \<open>\<open>sub in s\<close> on strings: \<open>sub\<close> occurs in \<open>s\<close> as a contiguous block.\<close>

fun startswith :: "string \<Rightarrow> string \<Rightarrow> bool" where
  "startswith s [] = True"
| "startswith [] (p # ps) = False"
| "startswith (c # cs) (p # ps) = (c = p \<and> startswith cs ps)"

fun str_in :: "string \<Rightarrow> string \<Rightarrow> bool" where
  "str_in sub [] = (sub = [])"
| "str_in sub (c # cs) = (startswith (c # cs) sub \<or> str_in sub cs)"

text \<open>\<open>s.split('/')\<close>: the segments between slashes, empty segments included.\<close>

fun split_from :: "string \<Rightarrow> string \<Rightarrow> string list" where
  "split_from cur [] = [cur]"
| "split_from cur (c # cs) =
     (if c = CHR ''/'' then cur # split_from [] cs else split_from (cur @ [c]) cs)"

definition split_slash :: "string \<Rightarrow> string list" where
  "split_slash s = split_from [] s"

text \<open>
  \<open>str.isspace\<close> on one character, and the characters at which \<open>str.splitlines\<close>
  ends a line (a carriage return followed by a line feed ends one line, not two).
\<close>

definition isspace :: "char \<Rightarrow> bool" where
  "isspace c =
     (let n = (of_char c :: nat)
      in (9 \<le> n \<and> n \<le> 13) \<or> (28 \<le> n \<and> n \<le> 32) \<or> n = 133 \<or> n = 160)"

definition is_linebreak :: "char \<Rightarrow> bool" where
  "is_linebreak c =
     (let n = (of_char c :: nat)
      in (10 \<le> n \<and> n \<le> 13) \<or> (28 \<le> n \<and> n \<le> 30) \<or> n = 133)"

definition strip :: "string \<Rightarrow> string" where
  "strip s = rev (dropWhile isspace (rev (dropWhile isspace s)))"

fun lines_from :: "string \<Rightarrow> string \<Rightarrow> string list" where
  "lines_from cur [] = (if cur = [] then [] else [cur])"
| "lines_from cur [c] = (if is_linebreak c then [cur] else [cur @ [c]])"
| "lines_from cur (c # d # cs) =
     (if c = CHR 0x0D \<and> d = CHR 0x0A then cur # lines_from [] cs
      else if is_linebreak c then cur # lines_from [] (d # cs)
      else lines_from (cur @ [c]) (d # cs))"

definition splitlines :: "string \<Rightarrow> string list" where
  "splitlines s = lines_from [] s"

text \<open>\<open>str(n)\<close> for a natural number: its decimal digits.\<close>

definition digit_char :: "nat \<Rightarrow> char" where
  "digit_char d = char_of (48 + d)"

function str_of_nat :: "nat \<Rightarrow> string" where
  "str_of_nat n = (if n < 10 then [digit_char n] else str_of_nat (n div 10) @ [digit_char (n mod 10)])"
  by pat_completeness auto
termination
  by (relation "measure (\<lambda>n. n)") auto

section \<open>The filesystem as the search sees it\<close>

text \<open>
  The image library is outside the repository; the model gives every call the program
  makes into it an outcome. An entry of a directory has a name (\<open>None\<close>: reading
  \<open>entry.info.name.name\<close> raises), metadata (\<open>None\<close>: \<open>entry.info.meta\<close> is absent;
  otherwise its type and size), the outcome of \<open>entry.read_random(0, size)\<close>
  (\<open>None\<close>: it raises) and the outcome of \<open>fs.open_dir\<close> on the entry's full path
  (\<open>None\<close>: it raises). An opened directory yields its entries in order; the flag says
  whether the iteration then ends normally (\<open>False\<close>) or raises (\<open>True\<close>).
  Names are taken after the permissive decoding of line 199.
\<close>

datatype meta_type = TSK_FS_META_TYPE_REG | TSK_FS_META_TYPE_DIR | TSK_FS_META_TYPE_OTHER

datatype entry =
  Entry (e_name: "string option") (e_meta: "(meta_type \<times> nat) option")
        (e_read: "byte list option") (e_dir: "directory option")
and directory =
  Directory (d_entries: "entry list") (d_raises: bool)

text \<open>
  One element of \<open>results\<close>: the dictionary built at lines 210-214, with the two keys that
  the partition loop adds at lines 281-282 (\<open>None\<close> while absent).
\<close>

record match =
  m_path :: string
  m_size :: nat
  m_entry :: entry
  m_partition :: "string option"
  m_partition_num :: "nat option"

text \<open>
  The state of one walk: the shared \<open>results\<close> list, and the log of the paths handed to
  \<open>fs.open_dir\<close>, in call order.
\<close>

record walk =
  results :: "match list"
  opened :: "string list"

definition target_filename :: string where
  "target_filename = ''consolehost_history.txt''"

definition target_path_parts :: "string list" where
  "target_path_parts =
     [''appdata'', ''roaming'', ''microsoft'', ''windows'', ''powershell'', ''psreadline'']"

definition join_path :: "string \<Rightarrow> string \<Rightarrow> string" where
  "join_path path name = (if path \<noteq> ''/'' then path @ ''/'' @ name else ''/'' @ name)"

text \<open>
  \<open>find_consolehost_files\<close> (lines 183-227). \<open>find_consolehost_files d path w\<close> is the
  call on \<open>path\<close> when \<open>fs.open_dir(path)\<close> has outcome \<open>d\<close>; \<open>for_entries\<close> is the loop of
  line 195 and \<open>visit\<close> its body. The Boolean returned with the state says whether the
  call ended by an exception (only the iteration itself can raise out of the loop; the body
  is wrapped by lines 196 and 224). The list \<open>results\<close> is shared by all calls, so what a
  call appended stays when it raises.
\<close>

fun find_consolehost_files :: "directory option \<Rightarrow> string \<Rightarrow> walk \<Rightarrow> bool \<times> walk"
  and for_entries :: "entry list \<Rightarrow> bool \<Rightarrow> string \<Rightarrow> walk \<Rightarrow> bool \<times> walk"
  and visit :: "entry \<Rightarrow> string \<Rightarrow> walk \<Rightarrow> walk"
where
  "find_consolehost_files None path w = (False, w\<lparr>opened := opened w @ [path]\<rparr>)"
| "find_consolehost_files (Some (Directory es r)) path w =
     for_entries es r path (w\<lparr>opened := opened w @ [path]\<rparr>)"
| "for_entries [] r path w = (r, w)"
| "for_entries (e # es) r path w = for_entries es r path (visit e path w)"
| "visit (Entry nm meta rd sub) path w =
     (case nm of
        None \<Rightarrow> w
      | Some name \<Rightarrow>
          if name = ''.'' \<or> name = ''..'' then w
          else
            let full_path = join_path path name in
            (case meta of
               Some (TSK_FS_META_TYPE_REG, sz) \<Rightarrow>
                 if lower name = target_filename then
                   (if list_all (\<lambda>part. str_in part (lower full_path)) target_path_parts
                    then w\<lparr>results := results w @
                           [\<lparr>m_path = full_path, m_size = sz,
                             m_entry = Entry nm meta rd sub,
                             m_partition = None, m_partition_num = None\<rparr>]\<rparr>
                    else w)
                 else w
             | Some (TSK_FS_META_TYPE_DIR, sz) \<Rightarrow>
                 if lower name = ''users'' \<or> lower name = ''documents and settings''
                    \<or> lower name \<in> set target_path_parts
                    \<or> str_in ''appdata'' (lower full_path)
                 then snd (find_consolehost_files sub full_path w)
                 else if lower path = ''/users'' \<or> lower path = ''/documents and settings''
                 then snd (find_consolehost_files sub full_path w)
                 else w
             | _ \<Rightarrow> w))"

section \<open>Reading, decoding and parsing one match\<close>

text \<open>\<open>extract_file_content\<close> (lines 229-235): any exception becomes \<open>None\<close>.\<close>

definition extract_file_content :: "entry \<Rightarrow> byte list option" where
  "extract_file_content e = (case e_meta e of None \<Rightarrow> None | Some m \<Rightarrow> e_read e)"

text \<open>\<open>get_username_from_path\<close> (lines 237-242).\<close>

fun username_loop :: "string list \<Rightarrow> string" where
  "username_loop [] = ''unknown''"
| "username_loop [part] = ''unknown''"
| "username_loop (part # nxt # rest) =
     (if lower part = ''users'' then nxt else username_loop (nxt # rest))"

definition get_username_from_path :: "string \<Rightarrow> string" where
  "get_username_from_path file_path = username_loop (split_slash file_path)"

text \<open>
  The codecs behind \<open>bytes.decode\<close> belong to the Python runtime. Four of them are
  parameters: each either raises a \<open>UnicodeDecodeError\<close> (\<open>None\<close>) or returns text. The
  fifth, \<open>latin-1\<close>, maps every byte to the code point of the same value.
\<close>

record codecs =
  utf_8 :: "byte list \<Rightarrow> string option"
  utf_8_sig :: "byte list \<Rightarrow> string option"
  cp949 :: "byte list \<Rightarrow> string option"
  euc_kr :: "byte list \<Rightarrow> string option"

definition latin_1 :: "byte list \<Rightarrow> string" where
  "latin_1 bs = map (\<lambda>b. char_of (unat b)) bs"

definition bytes_decode :: "codecs \<Rightarrow> string \<Rightarrow> byte list \<Rightarrow> string option" where
  "bytes_decode cs encoding bs =
     (if encoding = ''utf-8'' then utf_8 cs bs
      else if encoding = ''utf-8-sig'' then utf_8_sig cs bs
      else if encoding = ''cp949'' then cp949 cs bs
      else if encoding = ''euc-kr'' then euc_kr cs bs
      else if encoding = ''latin-1'' then Some (latin_1 bs)
      else None)"

definition encodings :: "string list" where
  "encodings = [''utf-8'', ''utf-8-sig'', ''cp949'', ''euc-kr'', ''latin-1'']"

text \<open>
  The loop of lines 313-319 over the variables \<open>content\<close> and \<open>used_encoding\<close>.
  \<open>content\<close> is a variable of the enclosing function: the loop leaves it as it was when no
  candidate decodes (\<open>None\<close>: not yet bound). \<open>used_encoding\<close> was reset at line 311.
\<close>

fun decode_loop :: "codecs \<Rightarrow> string list \<Rightarrow> byte list \<Rightarrow> string option
                      \<Rightarrow> string option \<times> string option" where
  "decode_loop cs [] bs content = (content, None)"
| "decode_loop cs (encoding # rest) bs content =
     (case bytes_decode cs encoding bs of
        Some text \<Rightarrow> (Some text, Some encoding)
      | None \<Rightarrow> decode_loop cs rest bs content)"

record command_record =
  line_number :: nat
  command :: string

text \<open>The loop of lines 323-329: \<open>enumerate(lines, start=1)\<close> with the counter \<open>line_num\<close>.\<close>

fun command_loop :: "nat \<Rightarrow> string list \<Rightarrow> command_record list \<Rightarrow> command_record list" where
  "command_loop line_num [] commands = commands"
| "command_loop line_num (line # rest) commands =
     (let stripped = strip line
      in if stripped \<noteq> []
         then command_loop (line_num + 1) rest
                (commands @ [\<lparr>line_number = line_num, command = stripped\<rparr>])
         else command_loop (line_num + 1) rest commands)"

definition parse_content :: "string \<Rightarrow> command_record list" where
  "parse_content content =
     (if content \<noteq> [] then command_loop 1 (splitlines content) [] else [])"

section \<open>The orchestrator\<close>

text \<open>
  One element of \<open>extracted_files\<close> (lines 331-340). \<open>output_path\<close> holds the name of the
  file inside \<open>output_dir\<close>; turning it into an absolute path is the platform's work.
\<close>

record extracted_file =
  username :: string
  source_path :: string
  output_path :: string
  file_size :: nat
  partition :: string
  encoding :: "string option"
  command_count :: nat
  commands :: "command_record list"

text \<open>
  The state of the loop of lines 298-340: the files written into \<open>output_dir\<close> so far (name
  and bytes, in writing order), the list \<open>extracted_files\<close>, and the function-level variable
  \<open>content\<close>.
\<close>

record out_state =
  written :: "(string \<times> byte list) list"
  extracted_files :: "extracted_file list"
  content :: "string option"

definition output_filename :: "string \<Rightarrow> nat \<Rightarrow> string" where
  "output_filename user i = ''ConsoleHost_history_'' @ user @ ''_'' @ str_of_nat (i + 1) @ ''.txt''"

text \<open>
  \<open>process_results cs wr i rs st\<close> runs the loop on the matches \<open>rs\<close>, the first of which
  has index \<open>i\<close> in \<open>all_results\<close>. \<open>wr name\<close> tells whether opening and writing the
  output file \<open>name\<close> (lines 306-307) raises. The result \<open>None\<close> stands for an exception
  leaving the function: lines 306-307 have no handler, and neither has reading \<open>content\<close>
  at line 321 while it is unbound.
\<close>

fun process_results :: "codecs \<Rightarrow> (string \<Rightarrow> bool) \<Rightarrow> nat \<Rightarrow> match list \<Rightarrow> out_state
                          \<Rightarrow> out_state option" where
  "process_results cs wr i [] st = Some st"
| "process_results cs wr i (result # rest) st =
     (let user = get_username_from_path (m_path result);
          fname = output_filename user i
      in case extract_file_content (m_entry result) of
           None \<Rightarrow> process_results cs wr (i + 1) rest st
         | Some content_bytes \<Rightarrow>
             if content_bytes = [] then process_results cs wr (i + 1) rest st
             else if wr fname then None
             else
               (case decode_loop cs encodings content_bytes (content st) of
                  (None, used_encoding) \<Rightarrow> None
                | (Some text, used_encoding) \<Rightarrow>
                    let cmds = parse_content text
                    in process_results cs wr (i + 1) rest
                         \<lparr>written = written st @ [(fname, content_bytes)],
                          extracted_files = extracted_files st @
                            [\<lparr>username = user, source_path = m_path result,
                              output_path = fname, file_size = m_size result,
                              partition = (case m_partition result of
                                             Some d \<Rightarrow> d | None \<Rightarrow> ''N/A''),
                              encoding = used_encoding,
                              command_count = length cmds, commands = cmds\<rparr>],
                          content = Some text\<rparr>))"

text \<open>
  A partition as the loop of lines 264-286 reads it: its flags, its description (after the
  decoding of line 274) and the outcome of \<open>FS_Info\<close> at its offset (\<open>None\<close>: it raises;
  otherwise the filesystem, given by the outcome of opening its root directory).
\<close>

datatype part_flag = TSK_VS_PART_FLAG_ALLOC | TSK_VS_PART_FLAG_UNALLOC | TSK_VS_PART_FLAG_META

record part =
  p_flags :: part_flag
  p_desc :: string
  p_fs :: "directory option option"

text \<open>
  The opened image: the outcome of reading its volume system (\<open>None\<close>: lines 253-254
  raise) and the outcome of \<open>FS_Info\<close> on the whole image.
\<close>

record image =
  volume :: "part list option"
  whole_fs :: "directory option option"

text \<open>
  What the run meets outside the image: both imports, the image file and \<open>open_image\<close>
  (lines 134-250); whether \<open>Path(output_dir).mkdir\<close> at line 261 raises; and, for each
  file name, whether opening and writing that file in \<open>output_dir\<close> raises.
\<close>

record env =
  pytsk3_installed :: bool
  pyewf_installed :: bool
  image_exists :: bool
  open_image :: "image option"
  mkdir_raises :: bool
  write_raises :: "string \<Rightarrow> bool"

definition new_walk :: walk where
  "new_walk = \<lparr>results = [], opened = []\<rparr>"

definition tag_result :: "string \<Rightarrow> nat \<Rightarrow> match \<Rightarrow> match" where
  "tag_result part_desc part_num r =
     r\<lparr>m_partition := Some part_desc, m_partition_num := Some part_num\<rparr>"

text \<open>
  The loop of lines 264-286; \<open>part_num\<close> is the position of the partition in the list
  (\<open>partitions.index(part)\<close>, partitions being distinct objects). An exception from
  \<open>FS_Info\<close> or from the search is caught at line 285 before \<open>all_results\<close> is extended.
\<close>

fun scan_partitions :: "int option \<Rightarrow> nat \<Rightarrow> part list \<Rightarrow> match list \<Rightarrow> match list" where
  "scan_partitions flt part_num [] all_results = all_results"
| "scan_partitions flt part_num (p # rest) all_results =
     (if p_flags p \<noteq> TSK_VS_PART_FLAG_ALLOC
      then scan_partitions flt (part_num + 1) rest all_results
      else if flt \<noteq> None \<and> Some (int part_num) \<noteq> flt
      then scan_partitions flt (part_num + 1) rest all_results
      else
        (case p_fs p of
           None \<Rightarrow> scan_partitions flt (part_num + 1) rest all_results
         | Some fs \<Rightarrow>
             (case find_consolehost_files fs ''/'' new_walk of
                (True, w) \<Rightarrow> scan_partitions flt (part_num + 1) rest all_results
              | (False, w) \<Rightarrow>
                  scan_partitions flt (part_num + 1) rest
                    (all_results @ map (tag_result (p_desc p) part_num) (results w)))))"

datatype failure =
  Pytsk3_not_installed | Pyewf_not_installed | Image_file_not_found
| Failed_to_open_image | Could_not_process_filesystem

record summary =
  image_path :: string
  output_dir :: string
  files_found :: nat
  files_extracted :: nat
  extracted :: "extracted_file list"

text \<open>
  What a run gives back: the dictionary with \<open>success\<close> false and an error message, or the
  summary of lines 342-349 together with the files written, or an exception that leaves
  the function (from line 261, 306, 307 or 321, which no handler encloses).
\<close>

datatype outcome =
  Failure failure
| Success summary "(string \<times> byte list) list"
| Uncaught_exception

definition finish :: "codecs \<Rightarrow> (string \<Rightarrow> bool) \<Rightarrow> string \<Rightarrow> string \<Rightarrow> match list \<Rightarrow> outcome" where
  "finish cs wr img_path out_dir all_results =
     (case process_results cs wr 0 all_results
             \<lparr>written = [], extracted_files = [], content = None\<rparr> of
        None \<Rightarrow> Uncaught_exception
      | Some st \<Rightarrow>
          Success \<lparr>image_path = img_path, output_dir = out_dir,
                   files_found = length all_results,
                   files_extracted = length (extracted_files st),
                   extracted = extracted_files st\<rparr>
                  (written st))"

text \<open>Lines 288-296: one filesystem on the whole image; any exception there is fatal.\<close>

definition whole_image_search :: "image \<Rightarrow> failure + match list" where
  "whole_image_search img =
     (case whole_fs img of
        None \<Rightarrow> Inl Could_not_process_filesystem
      | Some fs \<Rightarrow>
          (case find_consolehost_files fs ''/'' new_walk of
             (True, w) \<Rightarrow> Inl Could_not_process_filesystem
           | (False, w) \<Rightarrow> Inr (results w)))"

text \<open>
  Lines 252-296: \<open>partitions\<close> is \<open>None\<close> when the volume system could not be read, and
  line 263 takes the partition branch only for a non-empty list.
\<close>

definition collect :: "image \<Rightarrow> int option \<Rightarrow> failure + match list" where
  "collect img flt =
     (case volume img of
        None \<Rightarrow> whole_image_search img
      | Some partitions \<Rightarrow>
          if partitions \<noteq> [] then Inr (scan_partitions flt 0 partitions [])
          else whole_image_search img)"

definition extract_from_image :: "codecs \<Rightarrow> env \<Rightarrow> string \<Rightarrow> string \<Rightarrow> int option \<Rightarrow> outcome" where
  "extract_from_image cs ev img_path out_dir flt =
     (if \<not> pytsk3_installed ev then Failure Pytsk3_not_installed
      else if \<not> pyewf_installed ev then Failure Pyewf_not_installed
      else if \<not> image_exists ev then Failure Image_file_not_found
      else
        (case open_image ev of
           None \<Rightarrow> Failure Failed_to_open_image
         | Some img \<Rightarrow>
             if mkdir_raises ev then Uncaught_exception
             else
               (case collect img flt of
                  Inl f \<Rightarrow> Failure f
                | Inr all_results \<Rightarrow>
                    finish cs (write_raises ev) img_path out_dir all_results)))"

section \<open>Notions used to state the properties\<close>

text \<open>\<open>'/'.join(segments)\<close>, the inverse of \<open>split('/')\<close>.\<close>

fun join_slash :: "string list \<Rightarrow> string" where
  "join_slash [] = []"
| "join_slash [seg] = seg"
| "join_slash (seg # nxt # rest) = seg @ CHR ''/'' # join_slash (nxt # rest)"

text \<open>The test of lines 207-209 on a regular file \<open>name\<close> met in directory \<open>path\<close>.\<close>

definition is_target :: "string \<Rightarrow> string \<Rightarrow> bool" where
  "is_target path name \<longleftrightarrow>
     lower name = target_filename \<and>
     list_all (\<lambda>part. str_in part (lower (join_path path name))) target_path_parts"

text \<open>The test of lines 201 and 218-223 on a directory \<open>name\<close> met in directory \<open>path\<close>.\<close>

definition descends :: "string \<Rightarrow> string \<Rightarrow> bool" where
  "descends path name \<longleftrightarrow>
     name \<noteq> ''.'' \<and> name \<noteq> ''..'' \<and>
     (lower name = ''users'' \<or> lower name = ''documents and settings''
      \<or> lower name \<in> set target_path_parts
      \<or> str_in ''appdata'' (lower (join_path path name))
      \<or> lower path = ''/users'' \<or> lower path = ''/documents and settings'')"

definition match_of :: "string \<Rightarrow> string \<Rightarrow> nat \<Rightarrow> byte list option \<Rightarrow> directory option \<Rightarrow> match" where
  "match_of path name sz rd sub =
     \<lparr>m_path = join_path path name, m_size = sz,
      m_entry = Entry (Some name) (Some (TSK_FS_META_TYPE_REG, sz)) rd sub,
      m_partition = None, m_partition_num = None\<rparr>"

text \<open>
  The invariant of the walk started at \<open>start\<close>: every result is a target file met in an
  opened directory, and every opened directory other than \<open>start\<close> is a child, admitted by
  the pruning test, of an opened directory.
\<close>

definition recorded :: "string list \<Rightarrow> match \<Rightarrow> bool" where
  "recorded dirs m \<longleftrightarrow>
     (\<exists>path name sz rd sub.
        path \<in> set dirs \<and> is_target path name \<and> m = match_of path name sz rd sub)"

definition admitted :: "string \<Rightarrow> string list \<Rightarrow> string \<Rightarrow> bool" where
  "admitted start dirs p \<longleftrightarrow>
     p = start \<or>
     (\<exists>parent name. parent \<in> set dirs \<and> p = join_path parent name \<and> descends parent name)"

definition walk_inv :: "string \<Rightarrow> walk \<Rightarrow> bool" where
  "walk_inv start w \<longleftrightarrow>
     list_all (recorded (opened w)) (results w) \<and>
     list_all (admitted start (opened w)) (opened w)"

text \<open>The bytes that pass the test of line 305 for a match, if any.\<close>

definition content_of :: "match \<Rightarrow> byte list option" where
  "content_of m =
     (case extract_file_content (m_entry m) of
        None \<Rightarrow> None
      | Some bs \<Rightarrow> if bs = [] then None else Some bs)"

text \<open>The record of lines 331-340 for the match \<open>m\<close> of index \<open>k\<close> with content \<open>bs\<close>.\<close>

definition artifact_of :: "codecs \<Rightarrow> nat \<Rightarrow> match \<Rightarrow> byte list \<Rightarrow> extracted_file" where
  "artifact_of cs k m bs =
     (let (decoded, enc) = decode_loop cs encodings bs None;
          cmds = parse_content (case decoded of Some t \<Rightarrow> t | None \<Rightarrow> [])
      in \<lparr>username = get_username_from_path (m_path m), source_path = m_path m,
          output_path = output_filename (get_username_from_path (m_path m)) k,
          file_size = m_size m,
          partition = (case m_partition m of Some d \<Rightarrow> d | None \<Rightarrow> ''N/A''),
          encoding = enc, command_count = length cmds, commands = cmds\<rparr>)"

text \<open>
  Output files numbered by the index of the match in \<open>all_results\<close> (counted from \<open>i\<close>),
  and the records that go with them.
\<close>

definition files_by_match_index :: "nat \<Rightarrow> match list \<Rightarrow> (string \<times> byte list) list" where
  "files_by_match_index i rs =
     List.map_filter
       (\<lambda>(k, m). map_option (\<lambda>bs. (output_filename (get_username_from_path (m_path m)) k, bs))
                    (content_of m))
       (List.enumerate i rs)"

definition artifacts_by_match_index :: "codecs \<Rightarrow> nat \<Rightarrow> match list \<Rightarrow> extracted_file list" where
  "artifacts_by_match_index cs i rs =
     List.map_filter (\<lambda>(k, m). map_option (artifact_of cs k m) (content_of m))
       (List.enumerate i rs)"

text \<open>
  The same files numbered as the specification words it: by the position of each file
  among the successfully extracted ones.
\<close>

definition names_by_extraction_order :: "extracted_file list \<Rightarrow> string list" where
  "names_by_extraction_order fs =
     map (\<lambda>(k, f). output_filename (username f) k) (List.enumerate 0 fs)"

text \<open>
  The matches that the search of the partition at position \<open>n\<close> locates: those in \<open>results\<close>
  when the search of its filesystem ends, be it normally or by an exception. A partition
  that is not searched (not allocated, excluded by the partition filter, or without a
  filesystem that opens) has none.
\<close>

definition matches_located :: "int option \<Rightarrow> nat \<Rightarrow> part \<Rightarrow> match list" where
  "matches_located flt n p =
     (if p_flags p = TSK_VS_PART_FLAG_ALLOC \<and> (flt = None \<or> flt = Some (int n))
      then (case p_fs p of
              None \<Rightarrow> []
            | Some fs \<Rightarrow> results (snd (find_consolehost_files fs ''/'' new_walk)))
      else [])"

text \<open>Whether the iteration of the root directory of the partition's filesystem raises.\<close>

definition root_iteration_raises :: "part \<Rightarrow> bool" where
  "root_iteration_raises p =
     (case p_fs p of
        Some (Some (Directory es r)) \<Rightarrow> r
      | _ \<Rightarrow> False)"

section \<open>Fixtures\<close>

definition bytes_of :: "string \<Rightarrow> byte list" where
  "bytes_of s = map (\<lambda>c. of_nat (of_char c)) s"

text \<open>
  A stand-in for the runtime's codecs: \<open>utf-8\<close> accepts 7-bit input, where it agrees with
  \<open>latin-1\<close>, and the other three candidates reject everything.
\<close>

definition ascii_codecs :: codecs where
  "ascii_codecs =
     \<lparr>utf_8 = (\<lambda>bs. if list_all (\<lambda>b. b < 128) bs then Some (latin_1 bs) else None),
      utf_8_sig = (\<lambda>bs. None), cp949 = (\<lambda>bs. None), euc_kr = (\<lambda>bs. None)\<rparr>"

text \<open>Codecs of which only the last resort accepts.\<close>

definition strict_codecs :: codecs where
  "strict_codecs =
     \<lparr>utf_8 = (\<lambda>bs. None), utf_8_sig = (\<lambda>bs. None), cp949 = (\<lambda>bs. None),
      euc_kr = (\<lambda>bs. None)\<rparr>"

definition file_entry :: "string \<Rightarrow> byte list option \<Rightarrow> entry" where
  "file_entry name rd =
     Entry (Some name)
       (Some (TSK_FS_META_TYPE_REG, (case rd of None \<Rightarrow> 0 | Some bs \<Rightarrow> length bs))) rd None"

definition dir_entry :: "string \<Rightarrow> directory option \<Rightarrow> entry" where
  "dir_entry name d = Entry (Some name) (Some (TSK_FS_META_TYPE_DIR, 0)) None d"

definition listing :: "entry list \<Rightarrow> directory option" where
  "listing es = Some (Directory es False)"

text \<open>\<open>AppData/Roaming/Microsoft/Windows/PowerShell/PSReadLine/ConsoleHost_history.txt\<close>.\<close>

definition appdata_tree :: "byte list option \<Rightarrow> entry" where
  "appdata_tree rd =
     dir_entry ''AppData'' (listing [dir_entry ''Roaming'' (listing [dir_entry ''Microsoft''
       (listing [dir_entry ''Windows'' (listing [dir_entry ''PowerShell''
         (listing [dir_entry ''PSReadLine''
           (listing [file_entry ''ConsoleHost_history.txt'' rd])])])])])])"

definition home :: "string \<Rightarrow> byte list option \<Rightarrow> entry" where
  "home user rd = dir_entry user (listing [appdata_tree rd])"

definition three_lines :: string where
  "three_lines = ''Get-Process'' @ [CHR 0x0A, CHR 0x0A] @ ''Get-Service''"

definition bob_fs :: "directory option" where
  "bob_fs = listing [dir_entry ''Users'' (listing [home ''bob'' (Some (bytes_of three_lines))])]"

text \<open>An environment in which everything outside the image works.\<close>

definition installed :: "image \<Rightarrow> env" where
  "installed img =
     \<lparr>pytsk3_installed = True, pyewf_installed = True, image_exists = True,
      open_image = Some img, mkdir_raises = False, write_raises = (\<lambda>name. False)\<rparr>"

definition bare_image :: "directory option \<Rightarrow> image" where
  "bare_image fs = \<lparr>volume = None, whole_fs = Some fs\<rparr>"

text \<open>Two users; the first user's history file is given by \<open>rd\<close>.\<close>

definition two_users_fs :: "byte list option \<Rightarrow> directory option" where
  "two_users_fs rd =
     listing [dir_entry ''Users''
       (listing [home ''alice'' rd, home ''bob'' (Some (bytes_of ''dir''))])]"

text \<open>A history file under an unrelated top-level directory, next to a real one.\<close>

definition decoy_fs :: "directory option" where
  "decoy_fs =
     listing [dir_entry ''Temp''
                (listing [file_entry ''ConsoleHost_history.txt'' (Some (bytes_of ''x'')),
                          appdata_tree (Some (bytes_of ''y''))]),
              dir_entry ''Users'' (listing [home ''bob'' (Some (bytes_of ''z''))])]"

text \<open>A root directory whose iteration raises after it has yielded \<open>Users\<close>.\<close>

definition broken_root_fs :: "directory option" where
  "broken_root_fs =
     Some (Directory [dir_entry ''Users'' (listing [home ''bob'' (Some (bytes_of ''dir''))])] True)"

text \<open>
  A directory tree with damage below the root: an entry whose name cannot be read, a home
  directory that cannot be opened, one whose iteration raises, and one whose history file
  cannot be read.
\<close>

definition damaged_fs :: "directory option" where
  "damaged_fs =
     listing [dir_entry ''Users''
       (listing [Entry None None None None,
                 dir_entry ''carol'' None,
                 dir_entry ''dave'' (Some (Directory [appdata_tree (Some (bytes_of ''ls''))] True)),
                 home ''erin'' None,
                 home ''bob'' (Some (bytes_of ''dir''))])]"

definition disk_parts :: "part list" where
  "disk_parts =
     [\<lparr>p_flags = TSK_VS_PART_FLAG_META, p_desc = ''Primary Table (#0)'', p_fs = None\<rparr>,
      \<lparr>p_flags = TSK_VS_PART_FLAG_ALLOC, p_desc = ''EFI system partition'', p_fs = None\<rparr>,
      \<lparr>p_flags = TSK_VS_PART_FLAG_ALLOC, p_desc = ''Recovery'', p_fs = Some broken_root_fs\<rparr>,
      \<lparr>p_flags = TSK_VS_PART_FLAG_ALLOC, p_desc = ''Basic data partition'',
        p_fs = Some damaged_fs\<rparr>]"

definition disk_image :: image where
  "disk_image = \<lparr>volume = Some disk_parts, whole_fs = None\<rparr>"



text \<open>The tree of \<open>broken_root_fs\<close> with a root directory whose iteration ends normally.\<close>

definition sound_root_fs :: "directory option" where
  "sound_root_fs =
     Some (Directory [dir_entry ''Users'' (listing [home ''bob'' (Some (bytes_of ''dir''))])] False)"


definition history_path :: "string \<Rightarrow> string" where
  "history_path user =
     ''/Users/'' @ user @ ''/AppData/Roaming/Microsoft/Windows/PowerShell/PSReadLine/ConsoleHost_history.txt''"

section \<open>Strings\<close>


lemma startswith_prefix: "startswith s p = prefix p s"
  by (induction s p rule: startswith.induct) auto

lemma str_in_sublist: "str_in sub s = sublist sub s"
  by (induction s) (auto simp: startswith_prefix sublist_Cons_right)

lemma str_in_iff: "str_in sub s \<longleftrightarrow> (\<exists>pre suf. s = pre @ sub @ suf)"
  by (simp add: str_in_sublist sublist_def)

lemma username_loop_dropWhile:
  "username_loop segs =
     (case dropWhile (\<lambda>seg. lower seg \<noteq> ''users'') segs of
        u # nxt # rest \<Rightarrow> nxt
      | _ \<Rightarrow> ''unknown'')"
  by (induction segs rule: username_loop.induct) (auto split: list.splits)

lemma username_loop_first:
  assumes "\<forall>s \<in> set pre. lower s \<noteq> ''users''" and "lower u = ''users''"
  shows "username_loop (pre @ u # rest) = (case rest of [] \<Rightarrow> ''unknown'' | nxt # others \<Rightarrow> nxt)"
  using assms by (simp add: username_loop_dropWhile dropWhile_append3 split: list.splits)

lemma username_loop_none:
  assumes "\<forall>s \<in> set segs. lower s \<noteq> ''users''"
  shows "username_loop segs = ''unknown''"
proof -
  have d: "dropWhile (\<lambda>seg. lower seg \<noteq> ''users'') segs = []"
    using assms by simp
  show ?thesis unfolding username_loop_dropWhile d by simp
qed

lemma split_from_nonempty: "split_from cur s \<noteq> []"
  by (induction s arbitrary: cur) auto

lemma join_split_from: "join_slash (split_from cur s) = cur @ s"
proof (induction s arbitrary: cur)
  case Nil
  show ?case by simp
next
  case (Cons c cs)
  show ?case
  proof (cases "c = CHR ''/''")
    case True
    obtain seg segs where "split_from [] cs = seg # segs"
      using split_from_nonempty by (cases "split_from [] cs") auto
    with True Cons.IH[of "[]"] show ?thesis by simp
  next
    case False
    with Cons.IH[of "cur @ [c]"] show ?thesis by simp
  qed
qed

lemma split_from_no_slash:
  "CHR ''/'' \<notin> set cur \<Longrightarrow> seg \<in> set (split_from cur s) \<Longrightarrow> CHR ''/'' \<notin> set seg"
proof (induction s arbitrary: cur)
  case Nil
  then show ?case by simp
next
  case (Cons c cs)
  show ?case
  proof (cases "c = CHR ''/''")
    case True
    with Cons.prems have "seg = cur \<or> seg \<in> set (split_from [] cs)" by simp
    then show ?thesis
      using Cons.prems(1) Cons.IH[of "[]"] by auto
  next
    case False
    with Cons.prems have "seg \<in> set (split_from (cur @ [c]) cs)" by simp
    moreover have "CHR ''/'' \<notin> set (cur @ [c])" using False Cons.prems(1) by simp
    ultimately show ?thesis using Cons.IH by blast
  qed
qed

lemma split_slash_sound:
  "join_slash (split_slash s) = s \<and> (\<forall>seg \<in> set (split_slash s). CHR ''/'' \<notin> set seg)"
  using split_from_no_slash[of "[]"] by (auto simp: split_slash_def join_split_from)

section \<open>The walk\<close>

lemma target_not_dot: "lower name = target_filename \<Longrightarrow> name \<noteq> ''.'' \<and> name \<noteq> ''..''"
  by (auto simp: target_filename_def lower_def)

lemma visit_regular:
  "visit (Entry (Some name) (Some (TSK_FS_META_TYPE_REG, sz)) rd sub) path w =
     (if is_target path name
      then w\<lparr>results := results w @ [match_of path name sz rd sub]\<rparr> else w)"
  using target_not_dot[of name] by (auto simp: is_target_def match_of_def Let_def)

lemma visit_directory:
  "visit (Entry (Some name) (Some (TSK_FS_META_TYPE_DIR, sz)) rd sub) path w =
     (if descends path name then snd (find_consolehost_files sub (join_path path name) w) else w)"
  by (auto simp: descends_def Let_def)

lemma visit_other:
  "nm = None \<or> meta = None \<or> (\<exists>sz. meta = Some (TSK_FS_META_TYPE_OTHER, sz)) \<Longrightarrow>
     visit (Entry nm meta rd sub) path w = w"
  by (auto split: option.splits)

lemma visit_cases:
  "visit e path w = w
   \<or> (\<exists>name sz rd sub. e = Entry (Some name) (Some (TSK_FS_META_TYPE_REG, sz)) rd sub
        \<and> is_target path name
        \<and> visit e path w = w\<lparr>results := results w @ [match_of path name sz rd sub]\<rparr>)
   \<or> (\<exists>name sz rd sub. e = Entry (Some name) (Some (TSK_FS_META_TYPE_DIR, sz)) rd sub
        \<and> descends path name
        \<and> visit e path w = snd (find_consolehost_files sub (join_path path name) w))"
proof (cases e)
  case (Entry nm meta rd sub)
  show ?thesis
  proof (cases nm)
    case None
    with Entry show ?thesis by simp
  next
    case (Some name)
    show ?thesis
    proof (cases meta)
      case None
      with Entry Some show ?thesis by simp
    next
      case (Some a)
      obtain ty sz where a: "a = (ty, sz)" by (cases a)
      show ?thesis
      proof (cases ty)
        case TSK_FS_META_TYPE_REG
        then show ?thesis
          unfolding Entry \<open>nm = Some name\<close> Some a by (simp only: visit_regular) auto
      next
        case TSK_FS_META_TYPE_DIR
        then show ?thesis
          unfolding Entry \<open>nm = Some name\<close> Some a by (simp only: visit_directory) auto
      next
        case TSK_FS_META_TYPE_OTHER
        then show ?thesis
          unfolding Entry \<open>nm = Some name\<close> Some a by simp
      qed
    qed
  qed
qed

lemmas walk_induct = find_consolehost_files_for_entries_visit.induct

lemma walk_grows:
  "prefix (results w) (results (snd (find_consolehost_files d p w)))
     \<and> prefix (opened w) (opened (snd (find_consolehost_files d p w)))"
  "prefix (results w) (results (snd (for_entries es r p w)))
     \<and> prefix (opened w) (opened (snd (for_entries es r p w)))"
  "prefix (results w) (results (visit e p w)) \<and> prefix (opened w) (opened (visit e p w))"
proof (induction d p w and es r p w and e p w rule: walk_induct)
  case (1 path w)
  show ?case by simp
next
  case (2 es r path w)
  then show ?case by (auto dest: append_prefixD)
next
  case (3 r path w)
  show ?case by simp
next
  case (4 e es r path w)
  then show ?case by (auto intro: prefix_order.trans)
next
  case (5 nm meta rd sub path w)
  show ?case
  proof (cases nm)
    case None
    then show ?thesis by simp
  next
    case (Some name)
    show ?thesis
    proof (cases "name = ''.'' \<or> name = ''..''")
      case True
      with Some show ?thesis by auto
    next
      case False
      with Some 5 show ?thesis
        by (auto simp: Let_def split: option.splits meta_type.splits)
    qed
  qed
qed


lemma recorded_mono: "recorded dirs m \<Longrightarrow> set dirs \<subseteq> set dirs' \<Longrightarrow> recorded dirs' m"
  unfolding recorded_def by blast

lemma admitted_mono: "admitted s dirs p \<Longrightarrow> set dirs \<subseteq> set dirs' \<Longrightarrow> admitted s dirs' p"
  unfolding admitted_def by blast

lemma walk_inv_open:
  assumes "walk_inv s w" and "admitted s (opened w) p"
  shows "walk_inv s (w\<lparr>opened := opened w @ [p]\<rparr>)"
proof -
  have sub: "set (opened w) \<subseteq> set (opened w @ [p])" by auto
  show ?thesis
    using assms recorded_mono[OF _ sub] admitted_mono[OF _ sub]
    unfolding walk_inv_def list_all_iff by auto
qed

lemma walk_inv_record:
  assumes "walk_inv s w" and "p \<in> set (opened w)" and "is_target p name"
  shows "walk_inv s (w\<lparr>results := results w @ [match_of p name sz rd sub]\<rparr>)"
proof -
  have "recorded (opened w) (match_of p name sz rd sub)"
    unfolding recorded_def using assms(2,3) by blast
  with assms(1) show ?thesis
    unfolding walk_inv_def list_all_iff by auto
qed

lemma admitted_child:
  "p \<in> set dirs \<Longrightarrow> descends p name \<Longrightarrow> admitted s dirs (join_path p name)"
  unfolding admitted_def by blast

lemma walk_inv_preserved:
  "walk_inv s w \<Longrightarrow> admitted s (opened w) p \<Longrightarrow> walk_inv s (snd (find_consolehost_files d p w))"
  "walk_inv s w \<Longrightarrow> p \<in> set (opened w) \<Longrightarrow> walk_inv s (snd (for_entries es r p w))"
  "walk_inv s w \<Longrightarrow> p \<in> set (opened w) \<Longrightarrow> walk_inv s (visit e p w)"
proof (induction d p w and es r p w and e p w rule: walk_induct)
  case (1 path w)
  then show ?case by (simp add: walk_inv_open)
next
  case (2 es r path w)
  then show ?case by (simp add: walk_inv_open)
next
  case (3 r path w)
  then show ?case by simp
next
  case (4 e es r path w)
  have "path \<in> set (opened (visit e path w))"
    using walk_grows(3)[of w e path] "4.prems"(2) by (auto dest: set_mono_prefix)
  with 4 show ?case by simp
next
  case (5 nm meta rd sub path w)
  let ?e = "Entry nm meta rd sub"
  consider (same) "visit ?e path w = w"
    | (reg) name sz where "nm = Some name" "meta = Some (TSK_FS_META_TYPE_REG, sz)"
        "is_target path name"
        "visit ?e path w = w\<lparr>results := results w @ [match_of path name sz rd sub]\<rparr>"
    | (dir) name sz where "nm = Some name" "meta = Some (TSK_FS_META_TYPE_DIR, sz)"
        "descends path name"
        "visit ?e path w = snd (find_consolehost_files sub (join_path path name) w)"
    using visit_cases[of ?e path w] by auto
  then show ?case
  proof cases
    case same
    with "5.prems" show ?thesis by simp
  next
    case reg
    with "5.prems" show ?thesis by (simp add: walk_inv_record del: visit.simps)
  next
    case dir
    have adm: "admitted s (opened w) (join_path path name)"
      using "5.prems"(2) dir(3) by (rule admitted_child)
    have nd: "\<not> (name = ''.'' \<or> name = ''..'')"
      using dir(3) by (simp add: descends_def)
    have "walk_inv s (snd (find_consolehost_files sub (join_path path name) w))"
    proof (cases "lower name = ''users'' \<or> lower name = ''documents and settings''
                    \<or> lower name \<in> set target_path_parts
                    \<or> str_in ''appdata'' (lower (join_path path name))")
      case True
      show ?thesis
        by (rule "5.IH"(1)[OF dir(1) nd refl dir(2) refl refl True "5.prems"(1) adm])
    next
      case False
      with dir(3) have d: "lower path = ''/users'' \<or> lower path = ''/documents and settings''"
        by (auto simp: descends_def)
      show ?thesis
        by (rule "5.IH"(2)[OF dir(1) nd refl dir(2) refl refl False d "5.prems"(1) adm])
    qed
    with dir(4) show ?thesis by (simp del: visit.simps)
  qed
qed

section \<open>Decoding and the result loop\<close>

lemma decode_loop_find:
  "decode_loop cs encs bs c =
     (case List.find (\<lambda>e. bytes_decode cs e bs \<noteq> None) encs of
        None \<Rightarrow> (c, None)
      | Some e \<Rightarrow> (bytes_decode cs e bs, Some e))"
  by (induction encs) (auto split: option.splits)

lemma bytes_decode_latin_1: "bytes_decode cs ''latin-1'' bs = Some (latin_1 bs)"
  by (simp add: bytes_decode_def)

lemma find_encodings:
  "\<exists>enc text. List.find (\<lambda>e. bytes_decode cs e bs \<noteq> None) encodings = Some enc
      \<and> bytes_decode cs enc bs = Some text"
proof -
  have "''latin-1'' \<in> set encodings" by (simp add: encodings_def)
  then have "List.find (\<lambda>e. bytes_decode cs e bs \<noteq> None) encodings \<noteq> None"
    unfolding find_None_iff using bytes_decode_latin_1 by blast
  then obtain enc where f: "List.find (\<lambda>e. bytes_decode cs e bs \<noteq> None) encodings = Some enc"
    by blast
  then have "bytes_decode cs enc bs \<noteq> None"
    by (auto simp: find_Some_iff)
  with f show ?thesis by blast
qed

lemma decode_loop_total:
  "\<exists>text enc. decode_loop cs encodings bs c = (Some text, Some enc)"
  using find_encodings[of cs bs] by (auto simp: decode_loop_find)

lemma decode_loop_content_irrelevant:
  "decode_loop cs encodings bs c = decode_loop cs encodings bs None"
  using find_encodings[of cs bs] by (auto simp: decode_loop_find)

lemma process_results_step_skip:
  "content_of r = None \<Longrightarrow>
     process_results cs wr i (r # rest) st = process_results cs wr (Suc i) rest st"
  by (auto simp: content_of_def split: option.splits if_splits)

lemma process_results_step_take:
  assumes "content_of r = Some bs"
  shows "process_results cs wr i (r # rest) st =
           (if wr (output_filename (get_username_from_path (m_path r)) i) then None
            else process_results cs wr (Suc i) rest
             \<lparr>written = written st @ [(output_filename (get_username_from_path (m_path r)) i, bs)],
              extracted_files = extracted_files st @ [artifact_of cs i r bs],
              content = fst (decode_loop cs encodings bs None)\<rparr>)"
proof -
  from assms have e: "extract_file_content (m_entry r) = Some bs" and ne: "bs \<noteq> []"
    by (auto simp: content_of_def split: option.splits if_splits)
  obtain dec enc where d: "decode_loop cs encodings bs None = (Some dec, Some enc)"
    using decode_loop_total by blast
  then have d': "decode_loop cs encodings bs (content st) = (Some dec, Some enc)"
    using decode_loop_content_irrelevant[of cs bs "content st"] by simp
  show ?thesis
    by (simp add: e ne d d' artifact_of_def Let_def)
qed

lemma files_by_match_index_Cons:
  "files_by_match_index i (r # rest) =
     (case content_of r of
        None \<Rightarrow> files_by_match_index (Suc i) rest
      | Some bs \<Rightarrow> (output_filename (get_username_from_path (m_path r)) i, bs)
                   # files_by_match_index (Suc i) rest)"
  by (simp add: files_by_match_index_def split: option.splits)

lemma artifacts_by_match_index_Cons:
  "artifacts_by_match_index cs i (r # rest) =
     (case content_of r of
        None \<Rightarrow> artifacts_by_match_index cs (Suc i) rest
      | Some bs \<Rightarrow> artifact_of cs i r bs # artifacts_by_match_index cs (Suc i) rest)"
  by (simp add: artifacts_by_match_index_def split: option.splits)

lemma process_results_eq:
  "if list_ex (\<lambda>f. wr (fst f)) (files_by_match_index i rs)
   then process_results cs wr i rs st = None
   else (\<exists>st'. process_results cs wr i rs st = Some st'
           \<and> written st' = written st @ files_by_match_index i rs
           \<and> extracted_files st' = extracted_files st @ artifacts_by_match_index cs i rs)"
proof (induction rs arbitrary: i st)
  case Nil
  show ?case by (simp add: files_by_match_index_def artifacts_by_match_index_def)
next
  case (Cons r rest)
  show ?case
  proof (cases "content_of r")
    case None
    with Cons.IH[of "Suc i" st] show ?thesis
      by (simp add: process_results_step_skip files_by_match_index_Cons
            artifacts_by_match_index_Cons del: process_results.simps)
  next
    case (Some bs)
    let ?fn = "output_filename (get_username_from_path (m_path r)) i"
    let ?st = "\<lparr>written = written st @ [(?fn, bs)],
              extracted_files = extracted_files st @ [artifact_of cs i r bs],
              content = fst (decode_loop cs encodings bs None)\<rparr>"
    show ?thesis
    proof (cases "wr ?fn")
      case True
      with Some show ?thesis
        by (simp add: process_results_step_take files_by_match_index_Cons
              del: process_results.simps)
    next
      case False
      with Cons.IH[of "Suc i" ?st] Some show ?thesis
        by (auto simp: process_results_step_take files_by_match_index_Cons
              artifacts_by_match_index_Cons simp del: process_results.simps
              split: if_splits)
    qed
  qed
qed

section \<open>The outcome of a run\<close>

lemma finish_eq:
  "finish cs wr ip od rs =
     (if list_ex (\<lambda>f. wr (fst f)) (files_by_match_index 0 rs) then Uncaught_exception
      else Success \<lparr>image_path = ip, output_dir = od, files_found = length rs,
                    files_extracted = length (artifacts_by_match_index cs 0 rs),
                    extracted = artifacts_by_match_index cs 0 rs\<rparr>
                   (files_by_match_index 0 rs))"
proof -
  let ?st = "\<lparr>written = [], extracted_files = [], content = None\<rparr>"
  show ?thesis
  proof (cases "list_ex (\<lambda>f. wr (fst f)) (files_by_match_index 0 rs)")
    case True
    with process_results_eq[of wr 0 rs cs ?st] show ?thesis
      by (simp add: finish_def)
  next
    case False
    with process_results_eq[of wr 0 rs cs ?st]
    obtain st' where "process_results cs wr 0 rs ?st = Some st'"
      and "written st' = written ?st @ files_by_match_index 0 rs"
      and "extracted_files st' = extracted_files ?st @ artifacts_by_match_index cs 0 rs"
      by auto
    with False show ?thesis by (simp add: finish_def)
  qed
qed

lemma extract_from_image_cases:
  "extract_from_image cs ev ip od flt =
     (if \<not> pytsk3_installed ev then Failure Pytsk3_not_installed
      else if \<not> pyewf_installed ev then Failure Pyewf_not_installed
      else if \<not> image_exists ev then Failure Image_file_not_found
      else (case open_image ev of
              None \<Rightarrow> Failure Failed_to_open_image
            | Some img \<Rightarrow>
                if mkdir_raises ev then Uncaught_exception
                else
                  (case collect img flt of
                     Inl f \<Rightarrow> Failure f
                   | Inr rs \<Rightarrow>
                       if list_ex (\<lambda>f. write_raises ev (fst f)) (files_by_match_index 0 rs)
                       then Uncaught_exception
                       else
                         Success \<lparr>image_path = ip, output_dir = od, files_found = length rs,
                                  files_extracted = length (artifacts_by_match_index cs 0 rs),
                                  extracted = artifacts_by_match_index cs 0 rs\<rparr>
                                 (files_by_match_index 0 rs))))"
  by (simp add: extract_from_image_def finish_eq split: option.splits sum.splits)

lemma extract_from_image_success:
  assumes "extract_from_image cs ev ip od flt = Success sm files"
  shows "\<exists>img rs. open_image ev = Some img \<and> collect img flt = Inr rs
           \<and> sm = \<lparr>image_path = ip, output_dir = od, files_found = length rs,
                    files_extracted = length (artifacts_by_match_index cs 0 rs),
                    extracted = artifacts_by_match_index cs 0 rs\<rparr>
           \<and> files = files_by_match_index 0 rs"
  using assms unfolding extract_from_image_cases
  by (auto split: if_splits option.splits sum.splits)


lemma artifacts_member:
  assumes "f \<in> set (artifacts_by_match_index cs i rs)"
  shows "\<exists>k m bs. i \<le> k \<and> k < i + length rs \<and> m = rs ! (k - i) \<and> content_of m = Some bs
           \<and> f = artifact_of cs k m bs"
proof -
  from assms obtain k m where km: "(k, m) \<in> set (List.enumerate i rs)"
    and f: "map_option (artifact_of cs k m) (content_of m) = Some f"
    unfolding artifacts_by_match_index_def map_filter_def by auto
  from km have "i \<le> k" "k < i + length rs" "m = rs ! (k - i)"
    by (auto simp: in_set_enumerate_eq)
  with f show ?thesis by (cases "content_of m") auto
qed

lemma artifact_of_decoded:
  "\<exists>enc decoded. List.find (\<lambda>e. bytes_decode cs e bs \<noteq> None) encodings = Some enc
      \<and> bytes_decode cs enc bs = Some decoded
      \<and> encoding (artifact_of cs k m bs) = Some enc
      \<and> commands (artifact_of cs k m bs) = parse_content decoded
      \<and> command_count (artifact_of cs k m bs) = length (parse_content decoded)"
proof -
  obtain enc decoded where f: "List.find (\<lambda>e. bytes_decode cs e bs \<noteq> None) encodings = Some enc"
    and d: "bytes_decode cs enc bs = Some decoded"
    using find_encodings by blast
  then have "decode_loop cs encodings bs None = (Some decoded, Some enc)"
    by (simp add: decode_loop_find)
  then have "encoding (artifact_of cs k m bs) = Some enc
      \<and> commands (artifact_of cs k m bs) = parse_content decoded
      \<and> command_count (artifact_of cs k m bs) = length (parse_content decoded)"
    by (simp add: artifact_of_def Let_def)
  with f d show ?thesis by blast
qed

section \<open>Command lines\<close>

lemma command_loop_eq:
  "command_loop n ls acc =
     acc @ [\<lparr>line_number = k, command = strip l\<rparr>. (k, l) \<leftarrow> List.enumerate n ls, strip l \<noteq> []]"
  by (induction ls arbitrary: n acc) (simp_all add: Let_def)

lemma parse_content_eq:
  "parse_content t =
     [\<lparr>line_number = k, command = strip l\<rparr>. (k, l) \<leftarrow> List.enumerate 1 (splitlines t), strip l \<noteq> []]"
  by (cases "t = []") (simp_all add: parse_content_def command_loop_eq splitlines_def)

lemma parse_content_member:
  "c \<in> set (parse_content t) \<longleftrightarrow>
     (\<exists>i. i < length (splitlines t) \<and> strip (splitlines t ! i) \<noteq> []
        \<and> c = \<lparr>line_number = i + 1, command = strip (splitlines t ! i)\<rparr>)"
proof
  assume "c \<in> set (parse_content t)"
  then obtain k l where kl: "(k, l) \<in> set (List.enumerate 1 (splitlines t))"
    and s: "strip l \<noteq> []" and c: "c = \<lparr>line_number = k, command = strip l\<rparr>"
    unfolding parse_content_eq by auto
  from kl have "1 \<le> k" "k < length (splitlines t) + 1" "splitlines t ! (k - 1) = l"
    by (auto simp: in_set_enumerate_eq)
  with s c show "\<exists>i. i < length (splitlines t) \<and> strip (splitlines t ! i) \<noteq> []
        \<and> c = \<lparr>line_number = i + 1, command = strip (splitlines t ! i)\<rparr>"
    by (intro exI[of _ "k - 1"]) auto
next
  assume "\<exists>i. i < length (splitlines t) \<and> strip (splitlines t ! i) \<noteq> []
        \<and> c = \<lparr>line_number = i + 1, command = strip (splitlines t ! i)\<rparr>"
  then obtain i where i: "i < length (splitlines t)" and s: "strip (splitlines t ! i) \<noteq> []"
    and c: "c = \<lparr>line_number = i + 1, command = strip (splitlines t ! i)\<rparr>"
    by blast
  from i have "(i + 1, splitlines t ! i) \<in> set (List.enumerate 1 (splitlines t))"
    by (simp add: in_set_enumerate_eq)
  with s c show "c \<in> set (parse_content t)"
    unfolding parse_content_eq by force
qed

section \<open>A search from the root\<close>

lemma is_target_iff:
  "is_target path name \<longleftrightarrow>
     lower name = ''consolehost_history.txt'' \<and>
     (\<forall>part \<in> set [''appdata'', ''roaming'', ''microsoft'', ''windows'', ''powershell'', ''psreadline''].
        \<exists>pre suf. lower (join_path path name) = pre @ part @ suf)"
  by (simp add: is_target_def target_filename_def target_path_parts_def str_in_iff)

lemma descends_iff:
  "descends path name \<longleftrightarrow>
     name \<noteq> ''.'' \<and> name \<noteq> ''..'' \<and>
     (lower name = ''users'' \<or> lower name = ''documents and settings''
      \<or> lower name \<in> set [''appdata'', ''roaming'', ''microsoft'', ''windows'', ''powershell'', ''psreadline'']
      \<or> (\<exists>pre suf. lower (join_path path name) = pre @ ''appdata'' @ suf)
      \<or> lower path = ''/users'' \<or> lower path = ''/documents and settings'')"
  by (simp add: descends_def target_path_parts_def str_in_iff)


lemma walk_inv_new: "walk_inv s new_walk"
  by (simp add: walk_inv_def new_walk_def)

lemma walk_inv_root:
  "walk_inv ''/'' (snd (find_consolehost_files d ''/'' new_walk))"
  by (rule walk_inv_preserved(1)[OF walk_inv_new]) (simp add: admitted_def)

lemma root_results_recorded:
  assumes "m \<in> set (results (snd (find_consolehost_files d ''/'' new_walk)))"
  shows "\<exists>dir name sz rd sub.
           dir \<in> set (opened (snd (find_consolehost_files d ''/'' new_walk)))
           \<and> is_target dir name \<and> m = match_of dir name sz rd sub"
  using walk_inv_root[of d] assms unfolding walk_inv_def list_all_iff recorded_def by blast

lemma root_opened_admitted:
  assumes "p \<in> set (opened (snd (find_consolehost_files d ''/'' new_walk)))"
  shows "p = ''/'' \<or> (\<exists>parent name.
           parent \<in> set (opened (snd (find_consolehost_files d ''/'' new_walk)))
           \<and> p = join_path parent name \<and> descends parent name)"
  using walk_inv_root[of d] assms unfolding walk_inv_def list_all_iff admitted_def by blast

section \<open>Partitions and iteration failures\<close>

lemma for_entries_raises: "fst (for_entries es r p w) = r"
  by (induction es arbitrary: w) simp_all

lemma for_entries_state: "snd (for_entries es r p w) = snd (for_entries es False p w)"
  by (induction es arbitrary: w) simp_all

lemma find_raises:
  "fst (find_consolehost_files d p w) \<longleftrightarrow> (\<exists>es. d = Some (Directory es True))"
proof (cases d)
  case None
  then show ?thesis by simp
next
  case (Some dir)
  then show ?thesis by (cases dir) (simp add: for_entries_raises)
qed

lemma root_iteration_raises_iff:
  "root_iteration_raises p \<longleftrightarrow>
     (\<exists>fs. p_fs p = Some fs \<and> fst (find_consolehost_files fs ''/'' new_walk))"
proof (cases "p_fs p")
  case None
  then show ?thesis by (simp add: root_iteration_raises_def)
next
  case (Some fs)
  show ?thesis
  proof (cases fs)
    case None
    with Some show ?thesis by (simp add: root_iteration_raises_def)
  next
    case (Some d)
    with \<open>p_fs p = Some fs\<close> show ?thesis
      by (cases d) (simp add: root_iteration_raises_def for_entries_raises)
  qed
qed

lemma scan_partitions_step:
  "\<exists>added. scan_partitions flt n (p # rest) acc = scan_partitions flt (Suc n) rest (acc @ added)
      \<and> length added \<le> length (matches_located flt n p)
      \<and> (\<not> root_iteration_raises p \<longrightarrow> length added = length (matches_located flt n p))
      \<and> (root_iteration_raises p \<longrightarrow> added = [])"
proof (cases "p_flags p = TSK_VS_PART_FLAG_ALLOC \<and> (flt = None \<or> flt = Some (int n))")
  case False
  then have "scan_partitions flt n (p # rest) acc = scan_partitions flt (Suc n) rest (acc @ [])"
    by auto
  moreover from False have "matches_located flt n p = []"
    by (auto simp: matches_located_def)
  ultimately show ?thesis by (intro exI[of _ "[]"]) simp
next
  case True
  show ?thesis
  proof (cases "p_fs p")
    case None
    with True have "scan_partitions flt n (p # rest) acc
        = scan_partitions flt (Suc n) rest (acc @ [])"
      by auto
    moreover from None have "matches_located flt n p = []" "\<not> root_iteration_raises p"
      by (simp_all add: matches_located_def root_iteration_raises_def)
    ultimately show ?thesis by (intro exI[of _ "[]"]) simp
  next
    case (Some fs)
    obtain b w where f: "find_consolehost_files fs ''/'' new_walk = (b, w)"
      by (cases "find_consolehost_files fs ''/'' new_walk")
    have r: "root_iteration_raises p = b"
      using Some f by (simp add: root_iteration_raises_iff)
    have l: "matches_located flt n p = results w"
      using True Some f by (simp add: matches_located_def)
    show ?thesis
    proof (cases b)
      case True
      with \<open>p_flags p = TSK_VS_PART_FLAG_ALLOC \<and> (flt = None \<or> flt = Some (int n))\<close> Some f
      have "scan_partitions flt n (p # rest) acc = scan_partitions flt (Suc n) rest (acc @ [])"
        by auto
      with r True show ?thesis by (intro exI[of _ "[]"]) simp
    next
      case False
      with \<open>p_flags p = TSK_VS_PART_FLAG_ALLOC \<and> (flt = None \<or> flt = Some (int n))\<close> Some f
      have "scan_partitions flt n (p # rest) acc
          = scan_partitions flt (Suc n) rest (acc @ map (tag_result (p_desc p) n) (results w))"
        by auto
      with r False l show ?thesis
        by (intro exI[of _ "map (tag_result (p_desc p) n) (results w)"]) simp
    qed
  qed
qed

lemma scan_partitions_length_le:
  "length (scan_partitions flt n ps acc)
     \<le> length acc + sum_list (map (\<lambda>(k, p). length (matches_located flt k p)) (List.enumerate n ps))"
proof (induction ps arbitrary: n acc)
  case Nil
  show ?case by simp
next
  case (Cons p ps)
  obtain added where s: "scan_partitions flt n (p # ps) acc
      = scan_partitions flt (Suc n) ps (acc @ added)"
    and l: "length added \<le> length (matches_located flt n p)"
    using scan_partitions_step[of flt n p ps acc] by blast
  from Cons.IH[of "Suc n" "acc @ added"] l show ?case
    unfolding s by simp
qed

lemma scan_partitions_length_eq:
  assumes "list_all (\<lambda>p. \<not> root_iteration_raises p) ps"
  shows "length (scan_partitions flt n ps acc)
     = length acc + sum_list (map (\<lambda>(k, p). length (matches_located flt k p)) (List.enumerate n ps))"
  using assms
proof (induction ps arbitrary: n acc)
  case Nil
  show ?case by simp
next
  case (Cons p ps)
  from Cons.prems have np: "\<not> root_iteration_raises p"
    and rest: "list_all (\<lambda>p. \<not> root_iteration_raises p) ps"
    by simp_all
  obtain added where s: "scan_partitions flt n (p # ps) acc
      = scan_partitions flt (Suc n) ps (acc @ added)"
    and l: "length added = length (matches_located flt n p)"
    using scan_partitions_step[of flt n p ps acc] np by blast
  from Cons.IH[OF rest, of "Suc n" "acc @ added"] l show ?case
    unfolding s by simp
qed

lemma find_state_iteration:
  "snd (find_consolehost_files (Some (Directory es r)) p w)
     = snd (find_consolehost_files (Some (Directory es False)) p w)"
  using for_entries_state[of es r p] by simp

lemma whole_image_search_cases:
  "whole_image_search img =
     (case whole_fs img of
        None \<Rightarrow> Inl Could_not_process_filesystem
      | Some fs \<Rightarrow>
          if fst (find_consolehost_files fs ''/'' new_walk) then Inl Could_not_process_filesystem
          else Inr (results (snd (find_consolehost_files fs ''/'' new_walk))))"
  by (auto simp: whole_image_search_def split: option.splits prod.splits bool.splits)

section \<open>Files written and records\<close>

lemma files_member:
  "(fn, bs) \<in> set (files_by_match_index i rs) \<longleftrightarrow>
     (\<exists>k. k < length rs \<and> content_of (rs ! k) = Some bs
        \<and> fn = output_filename (get_username_from_path (m_path (rs ! k))) (i + k))"
proof
  assume "(fn, bs) \<in> set (files_by_match_index i rs)"
  then obtain j m where jm: "(j, m) \<in> set (List.enumerate i rs)"
    and f: "map_option (\<lambda>bs. (output_filename (get_username_from_path (m_path m)) j, bs))
              (content_of m) = Some (fn, bs)"
    unfolding files_by_match_index_def map_filter_def by auto
  from jm have "i \<le> j" "j < i + length rs" "m = rs ! (j - i)"
    by (auto simp: in_set_enumerate_eq)
  with f show "\<exists>k. k < length rs \<and> content_of (rs ! k) = Some bs
        \<and> fn = output_filename (get_username_from_path (m_path (rs ! k))) (i + k)"
    by (intro exI[of _ "j - i"]) (cases "content_of m"; auto)
next
  assume "\<exists>k. k < length rs \<and> content_of (rs ! k) = Some bs
        \<and> fn = output_filename (get_username_from_path (m_path (rs ! k))) (i + k)"
  then obtain k where k: "k < length rs" and c: "content_of (rs ! k) = Some bs"
    and fn: "fn = output_filename (get_username_from_path (m_path (rs ! k))) (i + k)"
    by blast
  from k have "(i + k, rs ! k) \<in> set (List.enumerate i rs)"
    by (simp add: in_set_enumerate_eq)
  with c fn show "(fn, bs) \<in> set (files_by_match_index i rs)"
    unfolding files_by_match_index_def map_filter_def by force
qed

lemma output_path_artifact_of [simp]:
  "output_path (artifact_of cs k m bs) = output_filename (get_username_from_path (m_path m)) k"
  by (simp add: artifact_of_def Let_def split: prod.splits)

lemma files_match_artifacts:
  "map fst (files_by_match_index i rs) = map output_path (artifacts_by_match_index cs i rs)"
proof (induction rs arbitrary: i)
  case Nil
  show ?case by (simp add: files_by_match_index_def artifacts_by_match_index_def)
next
  case (Cons r rs)
  from Cons.IH[of "Suc i"] show ?case
    by (cases "content_of r") (simp_all add: files_by_match_index_def artifacts_by_match_index_def)
qed


lemma length_artifacts:
  "length (artifacts_by_match_index cs i rs) = length (filter (\<lambda>m. content_of m \<noteq> None) rs)"
proof (induction rs arbitrary: i)
  case Nil
  show ?case by (simp add: artifacts_by_match_index_def)
next
  case (Cons r rs)
  from Cons.IH[of "Suc i"] show ?case
    by (cases "content_of r") (simp_all add: artifacts_by_match_index_def)
qed

lemma length_files:
  "length (files_by_match_index i rs) = length (artifacts_by_match_index cs i rs)"
  using files_match_artifacts[of i rs cs] by (metis length_map)

lemma length_artifacts_le: "length (artifacts_by_match_index cs i rs) \<le> length rs"
  by (simp add: length_artifacts)

lemma content_of_None_iff:
  "content_of m \<noteq> None \<longleftrightarrow>
     (case extract_file_content (m_entry m) of None \<Rightarrow> False | Some bs \<Rightarrow> bs \<noteq> [])"
  by (simp add: content_of_def split: option.splits)

section \<open>Collecting the matches of an image\<close>

lemma collect_partitions:
  "volume img = Some (p # ps) \<Longrightarrow> collect img flt = Inr (scan_partitions flt 0 (p # ps) [])"
  by (simp add: collect_def del: scan_partitions.simps)



lemma visit_unopened_directory:
  "results (visit (Entry nm (Some (TSK_FS_META_TYPE_DIR, sz)) rd None) path w) = results w"
  by (cases nm) (simp_all add: Let_def)

lemma whole_image_fatal_iff:
  "whole_image_search img = Inl Could_not_process_filesystem \<longleftrightarrow>
     whole_fs img = None \<or> (\<exists>es. whole_fs img = Some (Some (Directory es True)))"
  unfolding whole_image_search_cases
  by (cases "whole_fs img") (simp_all add: find_raises)

lemma whole_image_search_failure:
  "whole_image_search img = Inl f \<Longrightarrow> f = Could_not_process_filesystem"
  unfolding whole_image_search_cases by (auto split: option.splits if_splits)

text \<open>
  The counts of a successful result. \<open>files_found\<close> never exceeds the number of matches
  located on the partitions, and equals it when no root iteration raises.
\<close>

lemma success_counts:
  assumes "extract_from_image cs ev ip od flt = Success sm files"
  shows "files_extracted sm = length (extracted sm)"
    and "files_extracted sm \<le> files_found sm"
    and "\<exists>img rs. open_image ev = Some img \<and> collect img flt = Inr rs \<and> files_found sm = length rs"
proof -
  from assms obtain img rs where o: "open_image ev = Some img" and c: "collect img flt = Inr rs"
    and sm: "sm = \<lparr>image_path = ip, output_dir = od, files_found = length rs,
                    files_extracted = length (artifacts_by_match_index cs 0 rs),
                    extracted = artifacts_by_match_index cs 0 rs\<rparr>"
    using extract_from_image_success[of cs ev ip od flt sm files] by blast
  show "files_extracted sm = length (extracted sm)" unfolding sm by simp
  show "files_extracted sm \<le> files_found sm" unfolding sm by (simp add: length_artifacts_le)
  from o c show "\<exists>img rs. open_image ev = Some img \<and> collect img flt = Inr rs
      \<and> files_found sm = length rs"
    unfolding sm by simp
qed

lemma files_found_le_located:
  assumes "extract_from_image cs ev ip od flt = Success sm files"
    and "open_image ev = Some img" and "volume img = Some (p # ps)"
  shows "files_found sm
           \<le> sum_list (map (\<lambda>(k, q). length (matches_located flt k q))
                          (List.enumerate 0 (p # ps)))"
    and "list_all (\<lambda>q. \<not> root_iteration_raises q) (p # ps) \<Longrightarrow>
         files_found sm
           = sum_list (map (\<lambda>(k, q). length (matches_located flt k q))
                          (List.enumerate 0 (p # ps)))"
proof -
  from assms(1) obtain img' rs where "open_image ev = Some img'" and "collect img' flt = Inr rs"
    and "files_found sm = length rs"
    using extract_from_image_success[of cs ev ip od flt sm files] by auto
  with assms(2) collect_partitions[OF assms(3), of flt]
  have f: "files_found sm = length (scan_partitions flt 0 (p # ps) [])"
    by simp
  show "files_found sm
           \<le> sum_list (map (\<lambda>(k, q). length (matches_located flt k q))
                          (List.enumerate 0 (p # ps)))"
    unfolding f using scan_partitions_length_le[of flt 0 "p # ps" "[]"] by simp
  show "files_found sm
           = sum_list (map (\<lambda>(k, q). length (matches_located flt k q))
                          (List.enumerate 0 (p # ps)))"
    if "list_all (\<lambda>q. \<not> root_iteration_raises q) (p # ps)"
    unfolding f using scan_partitions_length_eq[OF that, of flt 0 "[]"] by simp
qed

section \<open>The claims\<close>

text \<open>
  C6. The username derived from a matched path is the segment right after the first
  segment whose lower-cased form is \<open>users\<close>; when no segment is \<open>users\<close>, or the first one
  is the last segment, it is \<open>unknown\<close>. For
  \<open>/Users/alice/AppData/.../ConsoleHost_history.txt\<close> it is \<open>alice\<close>.
\<close>

theorem get_username_from_path_first_users:
  "(\<forall>pre u rest.
       split_slash p = pre @ u # rest \<and> (\<forall>s \<in> set pre. lower s \<noteq> ''users'')
         \<and> lower u = ''users''
       \<longrightarrow> get_username_from_path p = (case rest of [] \<Rightarrow> ''unknown'' | nxt # others \<Rightarrow> nxt))
   \<and> ((\<forall>s \<in> set (split_slash p). lower s \<noteq> ''users'')
        \<longrightarrow> get_username_from_path p = ''unknown'')
   \<and> get_username_from_path ''/Users/alice/AppData/.../ConsoleHost_history.txt'' = ''alice''"
proof (intro conjI allI impI)
  fix pre u rest
  assume "split_slash p = pre @ u # rest \<and> (\<forall>s \<in> set pre. lower s \<noteq> ''users'')
            \<and> lower u = ''users''"
  then show "get_username_from_path p = (case rest of [] \<Rightarrow> ''unknown'' | nxt # others \<Rightarrow> nxt)"
    by (simp add: get_username_from_path_def username_loop_first)
next
  assume "\<forall>s \<in> set (split_slash p). lower s \<noteq> ''users''"
  then show "get_username_from_path p = ''unknown''"
    by (simp add: get_username_from_path_def username_loop_none)
next
  show "get_username_from_path ''/Users/alice/AppData/.../ConsoleHost_history.txt'' = ''alice''"
    by code_simp
qed

theorem get_username_from_path_first_users_witness:
  "split_slash ''/home/USERS/carol/users/dave''
     = ['''', ''home''] @ ''USERS'' # [''carol'', ''users'', ''dave'']
   \<and> list_all (\<lambda>s. lower s \<noteq> ''users'') ['''', ''home''] \<and> lower ''USERS'' = ''users''
   \<and> get_username_from_path ''/home/USERS/carol/users/dave'' = ''carol''
   \<and> split_slash ''/mnt/c/Users'' = ['''', ''mnt'', ''c''] @ ''Users'' # []
   \<and> list_all (\<lambda>s. lower s \<noteq> ''users'') ['''', ''mnt'', ''c''] \<and> lower ''Users'' = ''users''
   \<and> get_username_from_path ''/mnt/c/Users'' = ''unknown''
   \<and> list_all (\<lambda>s. lower s \<noteq> ''users'') (split_slash ''/Windows/Temp/ConsoleHost_history.txt'')
   \<and> get_username_from_path ''/Windows/Temp/ConsoleHost_history.txt'' = ''unknown''"
proof -
  have a1: "split_slash ''/home/USERS/carol/users/dave''
              = ['''', ''home''] @ ''USERS'' # [''carol'', ''users'', ''dave'']"
    by code_simp
  have a2: "list_all (\<lambda>s. lower s \<noteq> ''users'') ['''', ''home'']" by code_simp
  have a3: "lower ''USERS'' = ''users''" by code_simp
  have b1: "split_slash ''/mnt/c/Users'' = ['''', ''mnt'', ''c''] @ ''Users'' # []" by code_simp
  have b2: "list_all (\<lambda>s. lower s \<noteq> ''users'') ['''', ''mnt'', ''c'']" by code_simp
  have b3: "lower ''Users'' = ''users''" by code_simp
  have c1: "list_all (\<lambda>s. lower s \<noteq> ''users'')
              (split_slash ''/Windows/Temp/ConsoleHost_history.txt'')"
    by code_simp
  have a: "get_username_from_path ''/home/USERS/carol/users/dave'' = ''carol''"
    using get_username_from_path_first_users[of "''/home/USERS/carol/users/dave''",
        THEN conjunct1, rule_format, of "['''', ''home'']" "''USERS''" "[''carol'', ''users'', ''dave'']"]
      a1 a2 a3 by (simp add: list_all_iff)
  have b: "get_username_from_path ''/mnt/c/Users'' = ''unknown''"
    using get_username_from_path_first_users[of "''/mnt/c/Users''",
        THEN conjunct1, rule_format, of "['''', ''mnt'', ''c'']" "''Users''" "[]"]
      b1 b2 b3 by (simp add: list_all_iff)
  have c: "get_username_from_path ''/Windows/Temp/ConsoleHost_history.txt'' = ''unknown''"
    using get_username_from_path_first_users[of "''/Windows/Temp/ConsoleHost_history.txt''",
        THEN conjunct2, THEN conjunct1] c1 by (simp add: list_all_iff)
  show ?thesis using a1 a2 a3 a b1 b2 b3 b c1 c by blast
qed



text \<open>
  C2. The decoded text is split into lines, and every line that is not empty after
  trimming becomes one command record with its 1-based number among all lines; blank
  lines give no record but are counted. The three lines \<open>Get-Process\<close>, empty,
  \<open>Get-Service\<close> give the two commands numbered 1 and 3.
\<close>

theorem commands_are_numbered_lines:
  "parse_content t =
     [\<lparr>line_number = k, command = strip l\<rparr>.
        (k, l) \<leftarrow> List.enumerate 1 (splitlines t), strip l \<noteq> []]
   \<and> (\<forall>c. c \<in> set (parse_content t) \<longleftrightarrow>
          (\<exists>i. i < length (splitlines t) \<and> strip (splitlines t ! i) \<noteq> []
             \<and> c = \<lparr>line_number = i + 1, command = strip (splitlines t ! i)\<rparr>))
   \<and> (\<forall>sm files f.
         extract_from_image cs ev ip od flt = Success sm files \<and> f \<in> set (extracted sm)
         \<longrightarrow> command_count f = length (commands f)
             \<and> (\<exists>cb enc decoded. cb \<in> snd ` set files \<and> encoding f = Some enc
                   \<and> bytes_decode cs enc cb = Some decoded
                   \<and> commands f = parse_content decoded))
   \<and> splitlines (''Get-Process'' @ [CHR 0x0A] @ '''' @ [CHR 0x0A] @ ''Get-Service'')
       = [''Get-Process'', '''', ''Get-Service'']
   \<and> parse_content (''Get-Process'' @ [CHR 0x0A] @ '''' @ [CHR 0x0A] @ ''Get-Service'')
       = [\<lparr>line_number = 1, command = ''Get-Process''\<rparr>,
          \<lparr>line_number = 3, command = ''Get-Service''\<rparr>]"
proof (intro conjI allI impI)
  show "parse_content t =
     [\<lparr>line_number = k, command = strip l\<rparr>.
        (k, l) \<leftarrow> List.enumerate 1 (splitlines t), strip l \<noteq> []]"
    by (rule parse_content_eq)
next
  fix c
  show "c \<in> set (parse_content t) \<longleftrightarrow>
          (\<exists>i. i < length (splitlines t) \<and> strip (splitlines t ! i) \<noteq> []
             \<and> c = \<lparr>line_number = i + 1, command = strip (splitlines t ! i)\<rparr>)"
    by (rule parse_content_member)
next
  fix sm files f
  assume a: "extract_from_image cs ev ip od flt = Success sm files \<and> f \<in> set (extracted sm)"
  then obtain rs where f: "f \<in> set (artifacts_by_match_index cs 0 rs)"
    and files: "files = files_by_match_index 0 rs"
    using extract_from_image_success[of cs ev ip od flt sm files] by auto
  from f obtain k m cb where k: "0 \<le> k" "k < 0 + length rs" and m: "m = rs ! (k - 0)"
    and cb: "content_of m = Some cb" and fa: "f = artifact_of cs k m cb"
    using artifacts_member[of f cs 0 rs] by blast
  obtain enc decoded where e: "encoding (artifact_of cs k m cb) = Some enc"
    and d: "bytes_decode cs enc cb = Some decoded"
    and c: "commands (artifact_of cs k m cb) = parse_content decoded"
    and n: "command_count (artifact_of cs k m cb) = length (parse_content decoded)"
    using artifact_of_decoded[of cs cb k m] by blast
  from fa c n show "command_count f = length (commands f)" by simp
  have "(k, m) \<in> set (List.enumerate 0 rs)"
    using k m by (simp add: in_set_enumerate_eq)
  then have "(output_filename (get_username_from_path (m_path m)) k, cb) \<in> set files"
    unfolding files files_by_match_index_def map_filter_def using cb by force
  then have "cb \<in> snd ` set files" by force
  with e d c fa show "\<exists>cb enc decoded. cb \<in> snd ` set files \<and> encoding f = Some enc
                   \<and> bytes_decode cs enc cb = Some decoded
                   \<and> commands f = parse_content decoded"
    by blast
next
  show "splitlines (''Get-Process'' @ [CHR 0x0A] @ '''' @ [CHR 0x0A] @ ''Get-Service'')
       = [''Get-Process'', '''', ''Get-Service'']"
    by code_simp
next
  show "parse_content (''Get-Process'' @ [CHR 0x0A] @ '''' @ [CHR 0x0A] @ ''Get-Service'')
       = [\<lparr>line_number = 1, command = ''Get-Process''\<rparr>,
          \<lparr>line_number = 3, command = ''Get-Service''\<rparr>]"
    by code_simp
qed

theorem commands_are_numbered_lines_witness:
  "parse_content (''  whoami '' @ [CHR 0x0D, CHR 0x0A, CHR 0x09, CHR 0x0D, CHR 0x0A] @ ''exit'' @ [CHR 0x0A])
     = [\<lparr>line_number = 1, command = ''whoami''\<rparr>, \<lparr>line_number = 3, command = ''exit''\<rparr>]
   \<and> extract_from_image ascii_codecs (installed (bare_image bob_fs)) ''disk.dd'' ''out'' None
       = Success \<lparr>image_path = ''disk.dd'', output_dir = ''out'', files_found = 1,
                  files_extracted = 1,
                  extracted =
                    [\<lparr>username = ''bob'',
                      source_path = ''/Users/bob/AppData/Roaming/Microsoft/Windows/PowerShell/PSReadLine/ConsoleHost_history.txt'',
                      output_path = ''ConsoleHost_history_bob_1.txt'', file_size = 24,
                      partition = ''N/A'', encoding = Some ''utf-8'', command_count = 2,
                      commands = [\<lparr>line_number = 1, command = ''Get-Process''\<rparr>,
                                  \<lparr>line_number = 3, command = ''Get-Service''\<rparr>]\<rparr>]\<rparr>
                 [(''ConsoleHost_history_bob_1.txt'', bytes_of three_lines)]"
proof -
  let ?t = "''  whoami '' @ [CHR 0x0D, CHR 0x0A, CHR 0x09, CHR 0x0D, CHR 0x0A] @ ''exit'' @ [CHR 0x0A]"
  have "parse_content ?t =
     [\<lparr>line_number = k, command = strip l\<rparr>.
        (k, l) \<leftarrow> List.enumerate 1 (splitlines ?t), strip l \<noteq> []]"
    using commands_are_numbered_lines[of ?t] by blast
  also have "\<dots> = [\<lparr>line_number = 1, command = ''whoami''\<rparr>, \<lparr>line_number = 3, command = ''exit''\<rparr>]"
    by code_simp
  finally have a: "parse_content ?t
     = [\<lparr>line_number = 1, command = ''whoami''\<rparr>, \<lparr>line_number = 3, command = ''exit''\<rparr>]" .
  have b: "extract_from_image ascii_codecs (installed (bare_image bob_fs)) ''disk.dd'' ''out'' None
       = Success \<lparr>image_path = ''disk.dd'', output_dir = ''out'', files_found = 1,
                  files_extracted = 1,
                  extracted =
                    [\<lparr>username = ''bob'',
                      source_path = ''/Users/bob/AppData/Roaming/Microsoft/Windows/PowerShell/PSReadLine/ConsoleHost_history.txt'',
                      output_path = ''ConsoleHost_history_bob_1.txt'', file_size = 24,
                      partition = ''N/A'', encoding = Some ''utf-8'', command_count = 2,
                      commands = [\<lparr>line_number = 1, command = ''Get-Process''\<rparr>,
                                  \<lparr>line_number = 3, command = ''Get-Service''\<rparr>]\<rparr>]\<rparr>
                 [(''ConsoleHost_history_bob_1.txt'', bytes_of three_lines)]"
    by code_simp
  from a b show ?thesis by blast
qed



text \<open>
  C4. The search recurses into a directory only if its lower-cased name is \<open>users\<close> or
  \<open>documents and settings\<close>, or is one of the required path components, or its full path
  contains \<open>appdata\<close>, or the current directory is \<open>/users\<close> or \<open>/documents and settings\<close>:
  a directory failing all four is left alone whatever it holds, and every directory opened
  by a search from the root was admitted by one of them. Hence a file under an unrelated
  top-level directory is never found, and every file found has all required components in
  its path.
\<close>

theorem search_prunes_directories:
  "(\<not> (name \<noteq> ''.'' \<and> name \<noteq> ''..'' \<and>
        (lower name = ''users'' \<or> lower name = ''documents and settings''
         \<or> lower name \<in> set [''appdata'', ''roaming'', ''microsoft'', ''windows'', ''powershell'',
                                ''psreadline'']
         \<or> (\<exists>pre suf. lower (join_path path name) = pre @ ''appdata'' @ suf)
         \<or> lower path = ''/users'' \<or> lower path = ''/documents and settings''))
      \<longrightarrow> visit (Entry (Some name) (Some (TSK_FS_META_TYPE_DIR, sz)) rd sub) path w = w)
   \<and> (\<forall>p \<in> set (opened (snd (find_consolehost_files d ''/'' new_walk))).
         p = ''/'' \<or>
         (\<exists>parent nm.
            parent \<in> set (opened (snd (find_consolehost_files d ''/'' new_walk)))
            \<and> p = join_path parent nm \<and> nm \<noteq> ''.'' \<and> nm \<noteq> ''..''
            \<and> (lower nm = ''users'' \<or> lower nm = ''documents and settings''
                \<or> lower nm \<in> set [''appdata'', ''roaming'', ''microsoft'', ''windows'',
                                     ''powershell'', ''psreadline'']
                \<or> (\<exists>pre suf. lower p = pre @ ''appdata'' @ suf)
                \<or> lower parent = ''/users'' \<or> lower parent = ''/documents and settings'')))
   \<and> (\<forall>m \<in> set (results (snd (find_consolehost_files d ''/'' new_walk))).
         \<forall>part \<in> set [''appdata'', ''roaming'', ''microsoft'', ''windows'', ''powershell'',
                         ''psreadline''].
           \<exists>pre suf. lower (m_path m) = pre @ part @ suf)
   \<and> (lower name \<noteq> ''users'' \<and> lower name \<noteq> ''documents and settings''
        \<and> lower name \<notin> set [''appdata'', ''roaming'', ''microsoft'', ''windows'', ''powershell'',
                               ''psreadline'']
        \<and> \<not> (\<exists>pre suf. lower (''/'' @ name) = pre @ ''appdata'' @ suf)
      \<longrightarrow> find_consolehost_files
            (Some (Directory (Entry (Some name) (Some (TSK_FS_META_TYPE_DIR, sz)) rd sub # es) r))
            ''/'' w
          = find_consolehost_files (Some (Directory es r)) ''/'' w)"
proof (intro conjI ballI impI)
  assume "\<not> (name \<noteq> ''.'' \<and> name \<noteq> ''..'' \<and>
        (lower name = ''users'' \<or> lower name = ''documents and settings''
         \<or> lower name \<in> set [''appdata'', ''roaming'', ''microsoft'', ''windows'', ''powershell'',
                                ''psreadline'']
         \<or> (\<exists>pre suf. lower (join_path path name) = pre @ ''appdata'' @ suf)
         \<or> lower path = ''/users'' \<or> lower path = ''/documents and settings''))"
  then have "\<not> descends path name" unfolding descends_iff .
  then show "visit (Entry (Some name) (Some (TSK_FS_META_TYPE_DIR, sz)) rd sub) path w = w"
    by (simp add: visit_directory del: visit.simps)
next
  fix p assume "p \<in> set (opened (snd (find_consolehost_files d ''/'' new_walk)))"
  from root_opened_admitted[OF this]
  show "p = ''/'' \<or>
         (\<exists>parent nm.
            parent \<in> set (opened (snd (find_consolehost_files d ''/'' new_walk)))
            \<and> p = join_path parent nm \<and> nm \<noteq> ''.'' \<and> nm \<noteq> ''..''
            \<and> (lower nm = ''users'' \<or> lower nm = ''documents and settings''
                \<or> lower nm \<in> set [''appdata'', ''roaming'', ''microsoft'', ''windows'',
                                     ''powershell'', ''psreadline'']
                \<or> (\<exists>pre suf. lower p = pre @ ''appdata'' @ suf)
                \<or> lower parent = ''/users'' \<or> lower parent = ''/documents and settings''))"
    unfolding descends_iff by blast
next
  fix m part
  assume "m \<in> set (results (snd (find_consolehost_files d ''/'' new_walk)))"
    and part: "part \<in> set [''appdata'', ''roaming'', ''microsoft'', ''windows'', ''powershell'',
                         ''psreadline'']"
  from root_results_recorded[OF this(1)] obtain dir nm size rd' sub'
    where t: "is_target dir nm" and m: "m = match_of dir nm size rd' sub'"
    by blast
  from m have "m_path m = join_path dir nm" by (simp add: match_of_def)
  with t part show "\<exists>pre suf. lower (m_path m) = pre @ part @ suf"
    unfolding is_target_iff by metis
next
  assume a: "lower name \<noteq> ''users'' \<and> lower name \<noteq> ''documents and settings''
        \<and> lower name \<notin> set [''appdata'', ''roaming'', ''microsoft'', ''windows'', ''powershell'',
                               ''psreadline'']
        \<and> \<not> (\<exists>pre suf. lower (''/'' @ name) = pre @ ''appdata'' @ suf)"
  have "lower ''/'' \<noteq> ''/users''" "lower ''/'' \<noteq> ''/documents and settings''"
    by (simp_all add: lower_def)
  with a have "\<not> descends ''/'' name"
    unfolding descends_iff by (simp add: join_path_def)
  then show "find_consolehost_files
            (Some (Directory (Entry (Some name) (Some (TSK_FS_META_TYPE_DIR, sz)) rd sub # es) r))
            ''/'' w
          = find_consolehost_files (Some (Directory es r)) ''/'' w"
    by (simp add: visit_directory del: visit.simps)
qed

theorem search_prunes_directories_witness:
  "lower ''Temp'' \<noteq> ''users'' \<and> lower ''Temp'' \<noteq> ''documents and settings''
   \<and> lower ''Temp'' \<notin> set [''appdata'', ''roaming'', ''microsoft'', ''windows'', ''powershell'',
                              ''psreadline'']
   \<and> \<not> str_in ''appdata'' (lower (''/'' @ ''Temp''))
   \<and> map m_path (results (snd (find_consolehost_files decoy_fs ''/'' new_walk)))
       = [''/Users/bob/AppData/Roaming/Microsoft/Windows/PowerShell/PSReadLine/ConsoleHost_history.txt'']
   \<and> opened (snd (find_consolehost_files decoy_fs ''/'' new_walk))
       = [''/'', ''/Users'', ''/Users/bob'', ''/Users/bob/AppData'', ''/Users/bob/AppData/Roaming'',
          ''/Users/bob/AppData/Roaming/Microsoft'', ''/Users/bob/AppData/Roaming/Microsoft/Windows'',
          ''/Users/bob/AppData/Roaming/Microsoft/Windows/PowerShell'',
          ''/Users/bob/AppData/Roaming/Microsoft/Windows/PowerShell/PSReadLine'']"
proof -
  let ?temp = "listing [file_entry ''ConsoleHost_history.txt'' (Some (bytes_of ''x'')),
                        appdata_tree (Some (bytes_of ''y''))]"
  let ?users = "dir_entry ''Users'' (listing [home ''bob'' (Some (bytes_of ''z''))])"
  have h: "lower ''Temp'' \<noteq> ''users'' \<and> lower ''Temp'' \<noteq> ''documents and settings''
      \<and> lower ''Temp'' \<notin> set [''appdata'', ''roaming'', ''microsoft'', ''windows'', ''powershell'',
                                 ''psreadline'']
      \<and> \<not> str_in ''appdata'' (lower (''/'' @ ''Temp''))"
    by code_simp
  then have "find_consolehost_files
            (Some (Directory (Entry (Some ''Temp'') (Some (TSK_FS_META_TYPE_DIR, 0)) None ?temp
                              # [?users]) False))
            ''/'' new_walk
          = find_consolehost_files (Some (Directory [?users] False)) ''/'' new_walk"
    using search_prunes_directories[of "''Temp''" "''/''" 0 None ?temp new_walk d "[?users]" False,
        THEN conjunct2, THEN conjunct2, THEN conjunct2]
    by (simp only: str_in_iff) blast
  then have e: "find_consolehost_files decoy_fs ''/'' new_walk
          = find_consolehost_files (Some (Directory [?users] False)) ''/'' new_walk"
    by (simp add: decoy_fs_def listing_def dir_entry_def)
  have r: "map m_path (results (snd (find_consolehost_files (Some (Directory [?users] False)) ''/'' new_walk)))
       = [''/Users/bob/AppData/Roaming/Microsoft/Windows/PowerShell/PSReadLine/ConsoleHost_history.txt'']"
    by code_simp
  have o: "opened (snd (find_consolehost_files (Some (Directory [?users] False)) ''/'' new_walk))
       = [''/'', ''/Users'', ''/Users/bob'', ''/Users/bob/AppData'', ''/Users/bob/AppData/Roaming'',
          ''/Users/bob/AppData/Roaming/Microsoft'', ''/Users/bob/AppData/Roaming/Microsoft/Windows'',
          ''/Users/bob/AppData/Roaming/Microsoft/Windows/PowerShell'',
          ''/Users/bob/AppData/Roaming/Microsoft/Windows/PowerShell/PSReadLine'']"
    by code_simp
  from h r o show ?thesis unfolding e by blast
qed

text \<open>
  C1 as stated: the file written for an extracted match carries its 1-based position among
  the extracted files. It fails when an earlier match yields no content: of two matches
  the first is unreadable, and the only file written is numbered 2.
\<close>

theorem sequence_among_extracted_counterexample:
  "extract_from_image ascii_codecs (installed (bare_image (two_users_fs None))) ''disk.dd'' ''out'' None
     = Success
         \<lparr>image_path = ''disk.dd'', output_dir = ''out'', files_found = 2, files_extracted = 1,
          extracted =
            [\<lparr>username = ''bob'', source_path = history_path ''bob'',
              output_path = ''ConsoleHost_history_bob_2.txt'', file_size = 3,
              partition = ''N/A'', encoding = Some ''utf-8'', command_count = 1,
              commands = [\<lparr>line_number = 1, command = ''dir''\<rparr>]\<rparr>]\<rparr>
         [(''ConsoleHost_history_bob_2.txt'', bytes_of ''dir'')]
   \<and> names_by_extraction_order
        [\<lparr>username = ''bob'', source_path = history_path ''bob'',
          output_path = ''ConsoleHost_history_bob_2.txt'', file_size = 3,
          partition = ''N/A'', encoding = Some ''utf-8'', command_count = 1,
          commands = [\<lparr>line_number = 1, command = ''dir''\<rparr>]\<rparr>]
       = [''ConsoleHost_history_bob_1.txt'']
   \<and> ''ConsoleHost_history_bob_2.txt'' \<noteq> ''ConsoleHost_history_bob_1.txt''"
  by code_simp

text \<open>
  C1, amended. For every match whose content is extracted, the raw bytes are written to
  \<open>ConsoleHost_history_<username>_<n>.txt\<close>, where \<open>n\<close> is the 1-based position of the match
  among all matches found; nothing else is written, and each record's \<open>output_path\<close> names
  its file.
\<close>

theorem output_files_numbered_by_match_index:
  "extract_from_image cs ev ip od flt = Success sm files \<longrightarrow>
     (\<exists>img rs.
        open_image ev = Some img \<and> collect img flt = Inr rs
        \<and> files =
            List.map_filter
              (\<lambda>(k, m). map_option
                 (\<lambda>bs. (''ConsoleHost_history_'' @ get_username_from_path (m_path m) @ ''_''
                          @ str_of_nat (k + 1) @ ''.txt'', bs))
                 (content_of m))
              (List.enumerate 0 rs)
        \<and> (\<forall>fn bs. (fn, bs) \<in> set files \<longleftrightarrow>
              (\<exists>k. k < length rs \<and> content_of (rs ! k) = Some bs
                 \<and> fn = ''ConsoleHost_history_'' @ get_username_from_path (m_path (rs ! k)) @ ''_''
                          @ str_of_nat (k + 1) @ ''.txt''))
        \<and> map output_path (extracted sm) = map fst files)"
proof
  assume "extract_from_image cs ev ip od flt = Success sm files"
  then obtain img rs where o: "open_image ev = Some img" and c: "collect img flt = Inr rs"
    and sm: "extracted sm = artifacts_by_match_index cs 0 rs"
    and files: "files = files_by_match_index 0 rs"
    using extract_from_image_success[of cs ev ip od flt sm files] by auto
  have 1: "files =
            List.map_filter
              (\<lambda>(k, m). map_option
                 (\<lambda>bs. (''ConsoleHost_history_'' @ get_username_from_path (m_path m) @ ''_''
                          @ str_of_nat (k + 1) @ ''.txt'', bs))
                 (content_of m))
              (List.enumerate 0 rs)"
    unfolding files files_by_match_index_def output_filename_def by (rule refl)
  have 2: "\<forall>fn bs. (fn, bs) \<in> set files \<longleftrightarrow>
              (\<exists>k. k < length rs \<and> content_of (rs ! k) = Some bs
                 \<and> fn = ''ConsoleHost_history_'' @ get_username_from_path (m_path (rs ! k)) @ ''_''
                          @ str_of_nat (k + 1) @ ''.txt'')"
    unfolding files files_member output_filename_def by simp
  have 3: "map output_path (extracted sm) = map fst files"
    unfolding files sm by (rule files_match_artifacts[symmetric])
  from o c 1 2 3 show "\<exists>img rs.
        open_image ev = Some img \<and> collect img flt = Inr rs
        \<and> files =
            List.map_filter
              (\<lambda>(k, m). map_option
                 (\<lambda>bs. (''ConsoleHost_history_'' @ get_username_from_path (m_path m) @ ''_''
                          @ str_of_nat (k + 1) @ ''.txt'', bs))
                 (content_of m))
              (List.enumerate 0 rs)
        \<and> (\<forall>fn bs. (fn, bs) \<in> set files \<longleftrightarrow>
              (\<exists>k. k < length rs \<and> content_of (rs ! k) = Some bs
                 \<and> fn = ''ConsoleHost_history_'' @ get_username_from_path (m_path (rs ! k)) @ ''_''
                          @ str_of_nat (k + 1) @ ''.txt''))
        \<and> map output_path (extracted sm) = map fst files"
    by blast
qed

theorem output_files_numbered_by_match_index_witness:
  "extract_from_image ascii_codecs (installed (bare_image damaged_fs)) ''disk.dd'' ''out'' None
     = Success
         \<lparr>image_path = ''disk.dd'', output_dir = ''out'', files_found = 3, files_extracted = 2,
          extracted =
            [\<lparr>username = ''dave'', source_path = history_path ''dave'',
              output_path = ''ConsoleHost_history_dave_1.txt'', file_size = 2,
              partition = ''N/A'', encoding = Some ''utf-8'', command_count = 1,
              commands = [\<lparr>line_number = 1, command = ''ls''\<rparr>]\<rparr>,
             \<lparr>username = ''bob'', source_path = history_path ''bob'',
              output_path = ''ConsoleHost_history_bob_3.txt'', file_size = 3,
              partition = ''N/A'', encoding = Some ''utf-8'', command_count = 1,
              commands = [\<lparr>line_number = 1, command = ''dir''\<rparr>]\<rparr>]\<rparr>
         [(''ConsoleHost_history_dave_1.txt'', bytes_of ''ls''),
          (''ConsoleHost_history_bob_3.txt'', bytes_of ''dir'')]
   \<and> collect (bare_image damaged_fs) None
       = Inr [match_of ''/Users/dave/AppData/Roaming/Microsoft/Windows/PowerShell/PSReadLine''
                ''ConsoleHost_history.txt'' 2 (Some (bytes_of ''ls'')) None,
              match_of ''/Users/erin/AppData/Roaming/Microsoft/Windows/PowerShell/PSReadLine''
                ''ConsoleHost_history.txt'' 0 None None,
              match_of ''/Users/bob/AppData/Roaming/Microsoft/Windows/PowerShell/PSReadLine''
                ''ConsoleHost_history.txt'' 3 (Some (bytes_of ''dir'')) None]"
proof -
  let ?sm = "\<lparr>image_path = ''disk.dd'', output_dir = ''out'', files_found = 3, files_extracted = 2,
          extracted =
            [\<lparr>username = ''dave'', source_path = history_path ''dave'',
              output_path = ''ConsoleHost_history_dave_1.txt'', file_size = 2,
              partition = ''N/A'', encoding = Some ''utf-8'', command_count = 1,
              commands = [\<lparr>line_number = 1, command = ''ls''\<rparr>]\<rparr>,
             \<lparr>username = ''bob'', source_path = history_path ''bob'',
              output_path = ''ConsoleHost_history_bob_3.txt'', file_size = 3,
              partition = ''N/A'', encoding = Some ''utf-8'', command_count = 1,
              commands = [\<lparr>line_number = 1, command = ''dir''\<rparr>]\<rparr>]\<rparr>"
  let ?files = "[(''ConsoleHost_history_dave_1.txt'', bytes_of ''ls''),
          (''ConsoleHost_history_bob_3.txt'', bytes_of ''dir'')]"
  let ?rs = "[match_of ''/Users/dave/AppData/Roaming/Microsoft/Windows/PowerShell/PSReadLine''
                ''ConsoleHost_history.txt'' 2 (Some (bytes_of ''ls'')) None,
              match_of ''/Users/erin/AppData/Roaming/Microsoft/Windows/PowerShell/PSReadLine''
                ''ConsoleHost_history.txt'' 0 None None,
              match_of ''/Users/bob/AppData/Roaming/Microsoft/Windows/PowerShell/PSReadLine''
                ''ConsoleHost_history.txt'' 3 (Some (bytes_of ''dir'')) None]"
  have c: "collect (bare_image damaged_fs) None = Inr ?rs"
    by code_simp
  have f: "List.map_filter
              (\<lambda>(k, m). map_option
                 (\<lambda>bs. (''ConsoleHost_history_'' @ get_username_from_path (m_path m) @ ''_''
                          @ str_of_nat (k + 1) @ ''.txt'', bs))
                 (content_of m))
              (List.enumerate 0 ?rs) = ?files"
    by code_simp
  obtain sm files where run: "extract_from_image ascii_codecs (installed (bare_image damaged_fs))
      ''disk.dd'' ''out'' None = Success sm files"
    and sm: "sm = \<lparr>image_path = ''disk.dd'', output_dir = ''out'', files_found = length ?rs,
                    files_extracted = length (artifacts_by_match_index ascii_codecs 0 ?rs),
                    extracted = artifacts_by_match_index ascii_codecs 0 ?rs\<rparr>"
    unfolding extract_from_image_cases by (simp add: installed_def c list_ex_iff)
  from output_files_numbered_by_match_index[of ascii_codecs "installed (bare_image damaged_fs)"
      "''disk.dd''" "''out''" None sm files] run
  obtain img rs where o: "open_image (installed (bare_image damaged_fs)) = Some img"
    and c': "collect img None = Inr rs"
    and fl: "files =
            List.map_filter
              (\<lambda>(k, m). map_option
                 (\<lambda>bs. (''ConsoleHost_history_'' @ get_username_from_path (m_path m) @ ''_''
                          @ str_of_nat (k + 1) @ ''.txt'', bs))
                 (content_of m))
              (List.enumerate 0 rs)"
    by blast
  from o have "img = bare_image damaged_fs" by (simp add: installed_def)
  with c c' have rs: "rs = ?rs" by simp
  have "files = ?files" unfolding fl rs by (rule f)
  moreover have "sm = ?sm"
    unfolding sm by code_simp
  ultimately show ?thesis using run c by simp
qed

text \<open>
  C10. A match whose content reads as the empty byte string is handled like one whose
  read fails: the loop moves on without writing a file or appending a record, so the match
  counts in \<open>files_found\<close> and not in \<open>files_extracted\<close>, which counts the matches with
  non-empty content.
\<close>

theorem empty_content_is_skipped:
  "(extract_file_content (m_entry r) = Some [] \<longrightarrow>
      process_results cs wr i (r # rest) st = process_results cs wr (i + 1) rest st)
   \<and> (extract_file_content (m_entry r) = None \<longrightarrow>
      process_results cs wr i (r # rest) st = process_results cs wr (i + 1) rest st)
   \<and> (extract_from_image cs ev ip od flt = Success sm files \<longrightarrow>
        (\<exists>img rs.
           open_image ev = Some img \<and> collect img flt = Inr rs
           \<and> files_found sm = length rs
           \<and> files_extracted sm =
               length (filter (\<lambda>m. case extract_file_content (m_entry m) of
                                      None \<Rightarrow> False | Some bs \<Rightarrow> bs \<noteq> []) rs)
           \<and> length (extracted sm) = files_extracted sm
           \<and> length files = files_extracted sm))"
proof (intro conjI impI)
  assume "extract_file_content (m_entry r) = Some []"
  then show "process_results cs wr i (r # rest) st = process_results cs wr (i + 1) rest st"
    by simp
next
  assume "extract_file_content (m_entry r) = None"
  then show "process_results cs wr i (r # rest) st = process_results cs wr (i + 1) rest st"
    by simp
next
  assume "extract_from_image cs ev ip od flt = Success sm files"
  then obtain img rs where o: "open_image ev = Some img" and c: "collect img flt = Inr rs"
    and sm: "sm = \<lparr>image_path = ip, output_dir = od, files_found = length rs,
                    files_extracted = length (artifacts_by_match_index cs 0 rs),
                    extracted = artifacts_by_match_index cs 0 rs\<rparr>"
    and files: "files = files_by_match_index 0 rs"
    using extract_from_image_success[of cs ev ip od flt sm files] by blast
  have "files_extracted sm =
               length (filter (\<lambda>m. case extract_file_content (m_entry m) of
                                      None \<Rightarrow> False | Some bs \<Rightarrow> bs \<noteq> []) rs)"
    unfolding sm by (simp add: length_artifacts content_of_None_iff del: not_None_eq)
  moreover have "length files = files_extracted sm"
    unfolding sm files by (simp add: length_files[of 0 rs cs])
  moreover have "files_found sm = length rs" "length (extracted sm) = files_extracted sm"
    unfolding sm by simp_all
  ultimately show "\<exists>img rs.
           open_image ev = Some img \<and> collect img flt = Inr rs
           \<and> files_found sm = length rs
           \<and> files_extracted sm =
               length (filter (\<lambda>m. case extract_file_content (m_entry m) of
                                      None \<Rightarrow> False | Some bs \<Rightarrow> bs \<noteq> []) rs)
           \<and> length (extracted sm) = files_extracted sm
           \<and> length files = files_extracted sm"
    using o c by blast
qed

theorem empty_content_is_skipped_witness:
  "extract_file_content (file_entry ''ConsoleHost_history.txt'' (Some [])) = Some []
   \<and> extract_from_image ascii_codecs (installed (bare_image (two_users_fs (Some [])))) ''disk.dd'' ''out'' None
     = Success
         \<lparr>image_path = ''disk.dd'', output_dir = ''out'', files_found = 2, files_extracted = 1,
          extracted =
            [\<lparr>username = ''bob'', source_path = history_path ''bob'',
              output_path = ''ConsoleHost_history_bob_2.txt'', file_size = 3,
              partition = ''N/A'', encoding = Some ''utf-8'', command_count = 1,
              commands = [\<lparr>line_number = 1, command = ''dir''\<rparr>]\<rparr>]\<rparr>
         [(''ConsoleHost_history_bob_2.txt'', bytes_of ''dir'')]
   \<and> extract_from_image ascii_codecs (installed (bare_image (two_users_fs (Some [])))) ''disk.dd'' ''out'' None
     = extract_from_image ascii_codecs (installed (bare_image (two_users_fs None))) ''disk.dd'' ''out'' None"
proof -
  let ?empty = "match_of ''/Users/alice/AppData/Roaming/Microsoft/Windows/PowerShell/PSReadLine''
                  ''ConsoleHost_history.txt'' 0 (Some []) None"
  let ?bob = "match_of ''/Users/bob/AppData/Roaming/Microsoft/Windows/PowerShell/PSReadLine''
                ''ConsoleHost_history.txt'' 3 (Some (bytes_of ''dir'')) None"
  let ?st = "\<lparr>written = [], extracted_files = [], content = None\<rparr>"
  have e: "extract_file_content (file_entry ''ConsoleHost_history.txt'' (Some [])) = Some []"
    by code_simp
  then have e': "extract_file_content (m_entry ?empty) = Some []"
    by (simp add: match_of_def file_entry_def)
  have c: "collect (bare_image (two_users_fs (Some []))) None = Inr [?empty, ?bob]"
    by code_simp
  have skip: "process_results ascii_codecs (\<lambda>name. False) 0 (?empty # [?bob]) ?st
                = process_results ascii_codecs (\<lambda>name. False) (0 + 1) [?bob] ?st"
    using empty_content_is_skipped[where r = ?empty and cs = ascii_codecs
        and wr = "\<lambda>name. False" and i = 0 and rest = "[?bob]" and st = ?st, THEN conjunct1] e'
    by blast
  have rest: "process_results ascii_codecs (\<lambda>name. False) (0 + 1) [?bob] ?st
     = Some \<lparr>written = [(''ConsoleHost_history_bob_2.txt'', bytes_of ''dir'')],
             extracted_files =
               [\<lparr>username = ''bob'', source_path = history_path ''bob'',
                 output_path = ''ConsoleHost_history_bob_2.txt'', file_size = 3,
                 partition = ''N/A'', encoding = Some ''utf-8'', command_count = 1,
                 commands = [\<lparr>line_number = 1, command = ''dir''\<rparr>]\<rparr>],
             content = Some ''dir''\<rparr>"
    by code_simp
  have a: "extract_from_image ascii_codecs (installed (bare_image (two_users_fs (Some []))))
             ''disk.dd'' ''out'' None
     = Success
         \<lparr>image_path = ''disk.dd'', output_dir = ''out'', files_found = 2, files_extracted = 1,
          extracted =
            [\<lparr>username = ''bob'', source_path = history_path ''bob'',
              output_path = ''ConsoleHost_history_bob_2.txt'', file_size = 3,
              partition = ''N/A'', encoding = Some ''utf-8'', command_count = 1,
              commands = [\<lparr>line_number = 1, command = ''dir''\<rparr>]\<rparr>]\<rparr>
         [(''ConsoleHost_history_bob_2.txt'', bytes_of ''dir'')]"
  proof -
    have "finish ascii_codecs (\<lambda>name. False) ''disk.dd'' ''out'' [?empty, ?bob]
        = Success
         \<lparr>image_path = ''disk.dd'', output_dir = ''out'', files_found = 2, files_extracted = 1,
          extracted =
            [\<lparr>username = ''bob'', source_path = history_path ''bob'',
              output_path = ''ConsoleHost_history_bob_2.txt'', file_size = 3,
              partition = ''N/A'', encoding = Some ''utf-8'', command_count = 1,
              commands = [\<lparr>line_number = 1, command = ''dir''\<rparr>]\<rparr>]\<rparr>
         [(''ConsoleHost_history_bob_2.txt'', bytes_of ''dir'')]"
      unfolding finish_def skip rest by simp
    then show ?thesis
      by (simp add: extract_from_image_def installed_def c)
  qed
  have b: "extract_from_image ascii_codecs (installed (bare_image (two_users_fs None)))
             ''disk.dd'' ''out'' None
     = Success
         \<lparr>image_path = ''disk.dd'', output_dir = ''out'', files_found = 2, files_extracted = 1,
          extracted =
            [\<lparr>username = ''bob'', source_path = history_path ''bob'',
              output_path = ''ConsoleHost_history_bob_2.txt'', file_size = 3,
              partition = ''N/A'', encoding = Some ''utf-8'', command_count = 1,
              commands = [\<lparr>line_number = 1, command = ''dir''\<rparr>]\<rparr>]\<rparr>
         [(''ConsoleHost_history_bob_2.txt'', bytes_of ''dir'')]"
    by code_simp
  from e a b show ?thesis by simp
qed

text \<open>
  C9. \<open>files_found\<close> can be smaller than the number of matches located across the
  filesystems searched. On the four partitions below the searches locate 0, 0, 1 and 3
  matches; the iteration of the third partition's root directory raises after its match
  has been recorded, line 285 skips the partition before line 284 has added its matches,
  and the run reports \<open>files_found = 3\<close>.
\<close>

theorem files_found_misses_located_matches:
  "map (\<lambda>(k, q). length (matches_located None k q)) (List.enumerate 0 disk_parts) = [0, 0, 1, 3]
   \<and> map root_iteration_raises disk_parts = [False, False, True, False]
   \<and> extract_from_image strict_codecs (installed disk_image) ''disk.E01'' ''out'' None
       = Success
           \<lparr>image_path = ''disk.E01'', output_dir = ''out'', files_found = 3, files_extracted = 2,
            extracted =
              [\<lparr>username = ''dave'', source_path = history_path ''dave'',
                output_path = ''ConsoleHost_history_dave_1.txt'', file_size = 2,
                partition = ''Basic data partition'', encoding = Some ''latin-1'',
                command_count = 1, commands = [\<lparr>line_number = 1, command = ''ls''\<rparr>]\<rparr>,
               \<lparr>username = ''bob'', source_path = history_path ''bob'',
                output_path = ''ConsoleHost_history_bob_3.txt'', file_size = 3,
                partition = ''Basic data partition'', encoding = Some ''latin-1'',
                command_count = 1, commands = [\<lparr>line_number = 1, command = ''dir''\<rparr>]\<rparr>]\<rparr>
           [(''ConsoleHost_history_dave_1.txt'', bytes_of ''ls''),
            (''ConsoleHost_history_bob_3.txt'', bytes_of ''dir'')]
   \<and> sum_list [0, 0, 1, 3] = (4::nat)"
  by code_simp



text \<open>
  C8. A failure while iterating a directory is not always confined to that directory's
  subtree. On an image without partitions the iteration of the root directory raises after
  the match under \<open>Users\<close> has been recorded, and the run returns the failure result
  \<open>Could not process filesystem\<close>. The same tree with an iteration that ends normally
  yields that match, and a root directory that cannot be opened yields a success without
  matches.
\<close>

theorem root_iteration_failure_is_fatal:
  "fst (find_consolehost_files broken_root_fs ''/'' new_walk)
   \<and> map m_path (results (snd (find_consolehost_files broken_root_fs ''/'' new_walk)))
       = [history_path ''bob'']
   \<and> extract_from_image ascii_codecs (installed (bare_image broken_root_fs)) ''disk.dd'' ''out'' None
       = Failure Could_not_process_filesystem
   \<and> extract_from_image ascii_codecs (installed (bare_image sound_root_fs)) ''disk.dd'' ''out'' None
       = Success
           \<lparr>image_path = ''disk.dd'', output_dir = ''out'', files_found = 1, files_extracted = 1,
            extracted =
              [\<lparr>username = ''bob'', source_path = history_path ''bob'',
                output_path = ''ConsoleHost_history_bob_1.txt'', file_size = 3,
                partition = ''N/A'', encoding = Some ''utf-8'', command_count = 1,
                commands = [\<lparr>line_number = 1, command = ''dir''\<rparr>]\<rparr>]\<rparr>
           [(''ConsoleHost_history_bob_1.txt'', bytes_of ''dir'')]
   \<and> extract_from_image ascii_codecs (installed (bare_image None)) ''disk.dd'' ''out'' None
       = Success \<lparr>image_path = ''disk.dd'', output_dir = ''out'', files_found = 0,
                  files_extracted = 0, extracted = []\<rparr> []"
  by code_simp

end
